theory Spec2Isabelle
  imports Complex_Main
begin

section \<open>Numbers, arrays and errors\<close>

text \<open>
  The float arrays of \<^verbatim>\<open>spline.py\<close> are lists of reals: arithmetic is exact, so a
  statement below is about the computation the code describes, not about its rounding.
  A point is a one-dimensional array of coordinates, a control-point array a list of
  points. Every \<^verbatim>\<open>raise\<close> of the source, and every exception numpy raises on the
  shapes the code can build, is a value of \<open>error\<close>.
\<close>

type_synonym point = "real list"

datatype error =
    ValueError string
  | IndexError
  | NameError
  | NonFinite
  | NoConvergence nat "real list list"

text \<open>
  \<open>NonFinite\<close> marks a division by zero: numpy would continue with \<^verbatim>\<open>inf\<close> or
  \<^verbatim>\<open>nan\<close>, values the reals do not have. \<open>NoConvergence i error\<close> is the
  \<^verbatim>\<open>Exception\<close> of \<^verbatim>\<open>compute_deformations\<close> with the two values it formats.
\<close>

definition ktol :: real where
  "ktol = 1 / 10 ^ 13"

definition eps :: real where
  "eps = 1 / 2 ^ 52"

text \<open>Python's \<^verbatim>\<open>xs[i:j]\<close>: a negative bound counts from the end, both are clipped.\<close>

definition slice_bound :: "nat \<Rightarrow> int \<Rightarrow> nat" where
  "slice_bound n i = (if i < 0 then nat (max 0 (int n + i)) else min n (nat i))"

definition py_slice :: "'a list \<Rightarrow> int \<Rightarrow> int \<Rightarrow> 'a list" where
  "py_slice xs i j =
     (let n = length xs; a = slice_bound n i; b = slice_bound n j
      in take (b - a) (drop a xs))"

text \<open>\<^verbatim>\<open>np.argmax\<close> of a boolean array: the first \<^verbatim>\<open>True\<close>, 0 when there is none.\<close>

definition np_argmax :: "bool list \<Rightarrow> nat" where
  "np_argmax bs = (if True \<in> set bs then length (takeWhile Not bs) else 0)"

text \<open>
  \<^verbatim>\<open>np.convolve(a, v, 'valid')\<close>: the longer argument is the signal, neither may be
  empty, and only the positions where the two overlap completely are returned.
\<close>

definition np_convolve_valid :: "real list \<Rightarrow> real list \<Rightarrow> error + real list" where
  "np_convolve_valid a v =
     (let (a, v) = (if length a < length v then (v, a) else (a, v))
      in if a = [] then Inl (ValueError ''a cannot be empty'')
         else if v = [] then Inl (ValueError ''v cannot be empty'')
         else Inr (map (\<lambda>k. sum_list (map (\<lambda>j. v ! j * a ! (k + length v - 1 - j)) [0..<length v]))
                    [0..<length a - length v + 1]))"

section \<open>Knots\<close>

record Knots =
  knots :: "real list"
  length' :: int

definition Knots_init :: "real list \<Rightarrow> int \<Rightarrow> Knots" where
  "Knots_init ks degree = \<lparr>knots = ks, length' = degree - 1\<rparr>"

definition degree :: "'a Knots_scheme \<Rightarrow> int" where
  "degree K = length' K + 1"

definition nb_curves :: "'a Knots_scheme \<Rightarrow> int" where
  "nb_curves K = int (length (knots K)) - 2 * length' K - 1"

definition left_knot :: "'a Knots_scheme \<Rightarrow> real \<Rightarrow> error + int" where
  "left_knot K t =
     (let diff = map (\<lambda>k. k - t) (py_slice (knots K) (length' K) (- length' K));
          isrightof = map (\<lambda>d. ktol < d) diff
      in if list_all id isrightof then Inl (ValueError ''Time too small'')
         else if list_all Not isrightof then Inl (ValueError ''Time too big'')
         else Inr (int (np_argmax isrightof) - 1 + length' K))"


definition abscissae :: "'a Knots_scheme \<Rightarrow> error + real list" where
  "abscissae K =
     (if degree K < 0 then Inl (ValueError ''negative dimensions are not allowed'')
      else np_convolve_valid
             (map (\<lambda>x. x / real_of_int (degree K)) (replicate (nat (degree K)) 1))
             (knots K))"

section \<open>Errors as values\<close>

definition bind_err :: "error + 'a \<Rightarrow> ('a \<Rightarrow> error + 'b) \<Rightarrow> error + 'b" where
  "bind_err m f = (case m of Inl e \<Rightarrow> Inl e | Inr x \<Rightarrow> f x)"

text \<open>The results of a list of computations, or the first error among them.\<close>

fun all_ok :: "(error + 'a) list \<Rightarrow> error + 'a list" where
  "all_ok [] = Inr []"
| "all_ok (Inl e # ms) = Inl e"
| "all_ok (Inr x # ms) = bind_err (all_ok ms) (\<lambda>xs. Inr (x # xs))"

text \<open>
  numpy's broadcasting of two axes: equal lengths pair up, an axis of length one is
  repeated, anything else is the \<^verbatim>\<open>ValueError\<close> of mismatched shapes.
\<close>

definition np_broadcast :: "'a list \<Rightarrow> 'b list \<Rightarrow> error + ('a \<times> 'b) list" where
  "np_broadcast xs ys =
     (if length xs = length ys then Inr (zip xs ys)
      else if length xs = 1 then Inr (map (\<lambda>y. (hd xs, y)) ys)
      else if length ys = 1 then Inr (map (\<lambda>x. (x, hd ys)) xs)
      else Inl (ValueError ''operands could not be broadcast together''))"

section \<open>BSpline\<close>

definition geodesic :: "point \<Rightarrow> point \<Rightarrow> real \<Rightarrow> point" where
  "geodesic P1 P2 theta = map2 (\<lambda>a b. (1 - theta) * a + theta * b) P1 P2"

record BSpline = Knots +
  control_points :: "point list"

definition BSpline_init :: "real list \<Rightarrow> point list \<Rightarrow> error + BSpline" where
  "BSpline_init ks cps =
     (let degree = int (length ks) - int (length cps) + 1
      in Inr \<lparr>knots = ks, length' = degree - 1, control_points = cps\<rparr>)"

text \<open>
  The loop of \<^verbatim>\<open>BSpline.__call__\<close> for one parameter \<open>t\<close> of the batch: \<open>ns\<close> is
  \<^verbatim>\<open>reversed(1+np.arange(self.degree))\<close>, \<open>kns\<close> and \<open>pts\<close> are the local windows.
\<close>

fun rounds :: "nat list \<Rightarrow> real \<Rightarrow> real list \<Rightarrow> point list \<Rightarrow> error + point list" where
  "rounds [] t kns pts = Inr pts"
| "rounds (n # ns) t kns pts =
     (let diffs = map2 (\<lambda>a b. a - b) (drop n kns) (py_slice kns 0 (- int n));
          diffs = map (\<lambda>d. if d = 0 then eps else d) diffs
      in if 0 \<in> set diffs then Inl NonFinite
         else
           let rcoeff = map2 (\<lambda>k d. (t - k) / d) (py_slice kns 0 (- int n)) diffs
           in bind_err (np_broadcast (zip (butlast pts) (tl pts)) rcoeff)
                (\<lambda>prs. rounds ns t (py_slice kns 1 (- 1))
                          (map (\<lambda>((P1, P2), theta). geodesic P1 P2 theta) prs)))"

text \<open>\<^verbatim>\<open>pts[:,0]\<close> for one element of the batch.\<close>

definition first_point :: "point list \<Rightarrow> error + point" where
  "first_point pts = (case pts of [] \<Rightarrow> Inl IndexError | p # _ \<Rightarrow> Inr p)"

text \<open>
  \<^verbatim>\<open>BSpline.__call__(t, lknot)\<close>. The parameter array is the list \<open>ts\<close> of its values
  (a scalar is a batch of one), the result has one point per parameter. With no round
  to run (\<open>degree \<le> 0\<close>) the window keeps its batch axis of length one. The shapes, and
  so the exceptions, do not depend on the values of the batch: an empty batch raises
  what a batch of one raises.
\<close>

definition BSpline_call :: "'a BSpline_scheme \<Rightarrow> real list \<Rightarrow> int option \<Rightarrow> error + point list" where
  "BSpline_call b ts lknot =
     bind_err (case lknot of
                 None \<Rightarrow> (case ts of [] \<Rightarrow> Inl IndexError | t # _ \<Rightarrow> left_knot b t)
               | Some k \<Rightarrow> Inr k)
       (\<lambda>lknot.
          let pts = py_slice (control_points b) (lknot - length' b) (lknot + 2);
              kns = py_slice (knots b) (lknot - degree b + 1) (lknot + degree b + 1)
          in if int (length pts) \<noteq> length' b + 2 then Inl (ValueError ''Wrong knot index.'')
             else if degree b \<le> 0 then bind_err (first_point pts) (\<lambda>p. Inr [p])
             else
               let one = (\<lambda>t. bind_err (rounds (rev [1..<nat (degree b) + 1]) t kns pts) first_point)
               in if ts = [] then bind_err (one 0) (\<lambda>_. Inr [])
                  else all_ok (map one ts))"

section \<open>Bezier\<close>

record Bezier = BSpline +
  rknot :: int

definition Bezier_init :: "point list \<Rightarrow> error + Bezier" where
  "Bezier_init cps =
     (let nb_control_points = int (length cps);
          rknot = nb_control_points - 1
      in if 2 * rknot < 0 then Inl (ValueError ''negative dimensions are not allowed'')
         else
           let zeros = replicate (nat (2 * rknot)) (0::real);
               ks = take (nat rknot) zeros @ map (\<lambda>_. 1) (drop (nat rknot) zeros)
           in bind_err (BSpline_init ks cps)
                (\<lambda>b. Inr \<lparr>knots = knots b, length' = length' b,
                           control_points = control_points b, rknot = rknot\<rparr>))"

definition Bezier_call :: "'a Bezier_scheme \<Rightarrow> real list \<Rightarrow> error + point list" where
  "Bezier_call b ts = BSpline_call b ts (Some (rknot b - 1))"

text \<open>
  The Bezier curve as the claims describe it, for comparison with \<open>Bezier_call\<close>: the
  polynomial obtained by reducing the control points \<open>n\<close> times with the ratio \<open>t\<close>
  itself, with no knot lookup and no restriction on \<open>t\<close>.
\<close>

fun de_casteljau :: "nat \<Rightarrow> point list \<Rightarrow> real \<Rightarrow> point list" where
  "de_casteljau 0 pts t = pts"
| "de_casteljau (Suc n) pts t =
     de_casteljau n (map2 (\<lambda>P1 P2. geodesic P1 P2 t) (butlast pts) (tl pts)) t"

text \<open>
  The same polynomial in Bernstein form, for control points of dimension \<open>dm\<close>:
  coordinate \<open>c\<close> is the sum of \<open>binom(n,i) (1-t)^(n-i) t^i P_i[c]\<close> over the \<open>n + 1\<close>
  control points.
\<close>

definition bernstein :: "nat \<Rightarrow> point list \<Rightarrow> real \<Rightarrow> point" where
  "bernstein dm cps t =
     (let n = length cps - 1
      in map (\<lambda>c. sum_list (map (\<lambda>i. real (n choose i) * (1 - t) ^ (n - i) * t ^ i * cps ! i ! c)
                                [0..<length cps]))
           [0..<dm])"

section \<open>The C2 interpolator\<close>

text \<open>
  \<^verbatim>\<open>symmetric.py\<close> imports its geometry from \<^verbatim>\<open>geometry.py\<close> and the exponential
  from the library \<^verbatim>\<open>padexp\<close>; neither is among the sources verified here. The geometry
  is a record of the four operations the interpolator calls, over any type \<open>'p\<close> of
  points, \<open>'v\<close> of boundary velocities and \<open>'g\<close> of transformations; the exponential is
  a parameter \<open>exponential\<close> of the functions that use it. A deformation is the list of
  its components, the deformation array a list of deformations; \<open>redlog\<close> and
  \<open>connection\<close> return arrays of the shape of one deformation.
\<close>

type_synonym deformation = "real list"

record ('p, 'v, 'g) Geometry =
  connection :: "'p \<Rightarrow> 'v \<Rightarrow> deformation"
  action :: "'g \<Rightarrow> 'p \<Rightarrow> 'p"
  redlog :: "'p \<Rightarrow> 'p \<Rightarrow> deformation"
  zero_deformations :: "'p list \<Rightarrow> deformation list"

text \<open>Array arithmetic, componentwise.\<close>

definition vneg :: "deformation \<Rightarrow> deformation" where
  "vneg d = map uminus d"

definition vscale :: "real \<Rightarrow> deformation \<Rightarrow> deformation" where
  "vscale c d = map (\<lambda>x. c * x) d"

definition vadd :: "deformation \<Rightarrow> deformation \<Rightarrow> deformation" where
  "vadd a b = map2 (\<lambda>x y. x + y) a b"

definition vsub :: "deformation \<Rightarrow> deformation \<Rightarrow> deformation" where
  "vsub a b = map2 (\<lambda>x y. x - y) a b"

definition arr_scale :: "real \<Rightarrow> deformation list \<Rightarrow> deformation list" where
  "arr_scale c ds = map (vscale c) ds"

definition arr_add :: "deformation list \<Rightarrow> deformation list \<Rightarrow> deformation list" where
  "arr_add as bs = map2 vadd as bs"

definition arr_sub :: "deformation list \<Rightarrow> deformation list \<Rightarrow> deformation list" where
  "arr_sub as bs = map2 vsub as bs"

definition zeros_like :: "deformation list \<Rightarrow> deformation list" where
  "zeros_like ds = map (map (\<lambda>_. 0)) ds"

text \<open>\<^verbatim>\<open>np.max(np.abs(a))\<close>: the largest absolute component; a \<^verbatim>\<open>ValueError\<close> on no component.\<close>

definition np_max_abs :: "deformation list \<Rightarrow> error + real" where
  "np_max_abs a =
     (case concat a of
        [] \<Rightarrow> Inl (ValueError ''zero-size array to reduction operation maximum which has no identity'')
      | x # xs \<Rightarrow> Inr (fold (\<lambda>y m. max m \<bar>y\<bar>) xs \<bar>x\<bar>))"

text \<open>\<^verbatim>\<open>a[j] = v\<close> with Python's index: negative from the end, out of range raises.\<close>

definition py_set :: "'a list \<Rightarrow> int \<Rightarrow> 'a \<Rightarrow> error + 'a list" where
  "py_set xs j v =
     (let n = int (length xs); k = (if j < 0 then n + j else j)
      in if 0 \<le> k \<and> k < n then Inr (xs[nat k := v]) else Inl IndexError)"

record ('p, 'v, 'g) Interpolator =
  interpolation_points :: "'p list"
  boundary_deformations :: "deformation list"
  geometry :: "('p, 'v, 'g) Geometry"
  size' :: nat

definition max_iter :: nat where
  "max_iter = 500"

definition tolerance :: real where
  "tolerance = 1 / 10 ^ 12"

definition Interpolator_init ::
  "'p list \<Rightarrow> 'v list \<Rightarrow> ('p, 'v, 'g) Geometry \<Rightarrow> error + ('p, 'v, 'g) Interpolator" where
  "Interpolator_init pts boundary_velocities g =
     (if pts = [] \<or> length boundary_velocities < 2 then Inl IndexError
      else Inr \<lparr>interpolation_points = pts,
                boundary_deformations =
                  [vscale (1 / 3) (connection g (pts ! 0) (boundary_velocities ! 0)),
                   vscale (1 / 3) (connection g (last pts) (boundary_velocities ! 1))],
                geometry = g,
                size' = length pts\<rparr>)"

text \<open>
  \<^verbatim>\<open>Interpolator.control_points\<close> is a generator: an item is computed when it is asked
  for, and an index out of range would raise then. Item \<open>k\<close> is the pair
  (left control point at \<open>k + 2\<close>, right control point at \<open>k\<close>).
\<close>

definition Interpolator_control_points ::
  "(deformation \<Rightarrow> 'g) \<Rightarrow> ('p, 'v, 'g) Interpolator \<Rightarrow> deformation list \<Rightarrow> (error + 'p \<times> 'p) list" where
  "Interpolator_control_points exponential I deformations =
     (let N = size' I; g = geometry I; pts = interpolation_points I
      in map (\<lambda>(l, r).
           if l < length deformations \<and> l < length pts \<and> r < length deformations \<and> r < length pts
           then Inr (action g (exponential (vneg (deformations ! l))) (pts ! l),
                     action g (exponential (deformations ! r)) (pts ! r))
           else Inl IndexError)
         (zip [2..<N] [0..<N - 2]))"

definition interior_deformations ::
  "(deformation \<Rightarrow> 'g) \<Rightarrow> ('p, 'v, 'g) Interpolator \<Rightarrow> deformation list \<Rightarrow> error + deformation list" where
  "interior_deformations exponential I deformations =
     (let g = geometry I;
          interior_deformations = py_slice deformations 1 (- 1);
          sig_left = zeros_like interior_deformations;
          sig_right = zeros_like interior_deformations;
          items = zip (py_slice (interpolation_points I) 1 (- 1))
                    (zip interior_deformations
                       (Interpolator_control_points exponential I deformations))
      in bind_err
           (all_ok (map (\<lambda>(P, d, c).
               bind_err c (\<lambda>(left, right).
                 let pt_left = action g (exponential (vneg d)) left;
                     pt_right = action g (exponential d) right
                 in Inr (redlog g P pt_left, redlog g P pt_right))) items))
           (\<lambda>sigs.
              let sig_right = map fst sigs @ drop (length sigs) sig_right;
                  sig_left = map snd sigs @ drop (length sigs) sig_left
              in Inr (arr_scale (1 / 4)
                        (arr_add (arr_sub sig_right sig_left) (arr_scale 2 interior_deformations)))))"

text \<open>
  One pass of the loop of \<^verbatim>\<open>compute_deformations\<close>, entered with the loop variable
  \<open>i\<close> and the array \<open>deformations\<close>. It returns the variables \<open>i\<close> and \<open>error\<close> as the
  pass leaves them (the inner \<^verbatim>\<open>for i,j in ((0,0), (1,-1))\<close> assigns \<open>i\<close> too), the new
  array, and whether the pass ends in \<^verbatim>\<open>break\<close>.
\<close>

definition loop_body ::
  "(deformation \<Rightarrow> 'g) \<Rightarrow> ('p, 'v, 'g) Interpolator \<Rightarrow> nat \<Rightarrow> deformation list
     \<Rightarrow> error + (nat \<times> deformation list \<times> deformation list \<times> bool)" where
  "loop_body exponential I i deformations =
     bind_err (interior_deformations exponential I deformations)
       (\<lambda>interior.
          let error = arr_sub (py_slice deformations 1 (- 1)) interior;
              deformations =
                (if length deformations < 2 then deformations
                 else take 1 deformations @ interior @ drop (length deformations - 1) deformations)
          in bind_err
               (fold (\<lambda>(i, j) st.
                    bind_err st (\<lambda>(_, ds).
                      bind_err (py_set ds j (boundary_deformations I ! i)) (\<lambda>ds. Inr (i, ds))))
                  [(0, 0), (1, - 1)] (Inr (i, deformations)))
               (\<lambda>(i, deformations).
                  bind_err (np_max_abs error)
                    (\<lambda>m. Inr (i, error, deformations, m < tolerance))))"

text \<open>
  The \<^verbatim>\<open>for ... else\<close> loop over the remaining values \<open>ks\<close> of \<^verbatim>\<open>range(self.max_iter)\<close>;
  \<open>vars\<close> holds \<open>i\<close> and \<open>error\<close> once they are assigned.
\<close>

fun iterate ::
  "(deformation \<Rightarrow> 'g) \<Rightarrow> ('p, 'v, 'g) Interpolator \<Rightarrow> nat list
     \<Rightarrow> (nat \<times> deformation list) option \<Rightarrow> deformation list \<Rightarrow> error + deformation list" where
  "iterate exponential I [] vars deformations =
     (case vars of None \<Rightarrow> Inl NameError | Some (i, error) \<Rightarrow> Inl (NoConvergence i error))"
| "iterate exponential I (k # ks) vars deformations =
     bind_err (loop_body exponential I k deformations)
       (\<lambda>(i, error, deformations, converged).
          if converged then Inr deformations
          else iterate exponential I ks (Some (i, error)) deformations)"

definition compute_deformations ::
  "(deformation \<Rightarrow> 'g) \<Rightarrow> ('p, 'v, 'g) Interpolator \<Rightarrow> error + deformation list" where
  "compute_deformations exponential I =
     iterate exponential I [0..<max_iter] None
       (zero_deformations (geometry I) (interpolation_points I))"

text \<open>
  Modelled from the spec: the Euclidean variant of \<^verbatim>\<open>Geometry\<close> (\<^verbatim>\<open>geometry.py\<close> is
  not among the sources), used to run the interpolator on concrete inputs. Section 4.2:
  \<^verbatim>\<open>action(v,P) = P+v\<close>, \<^verbatim>\<open>redlog(P,Q) = Q-P\<close>; the deformation array is created
  zero-initialized, one tangent vector per interpolation point; a boundary velocity is
  already a tangent vector. On the flat space a transformation is a translation, and
  the exponential of a tangent vector is the translation by it.
\<close>

definition Euclidean :: "(point, point, point) Geometry" where
  "Euclidean = \<lparr>connection = (\<lambda>P v. v),
                action = (\<lambda>v P. vadd P v),
                redlog = (\<lambda>P Q. vsub Q P),
                zero_deformations = zeros_like\<rparr>"

definition translation :: "deformation \<Rightarrow> point" where
  "translation xi = xi"

section \<open>Properties of the knot vector\<close>

subsection \<open>The window of \<open>left_knot\<close>\<close>

lemma window_slice:
  assumes "1 \<le> L" "2 * L < int (length ks)"
  shows "py_slice ks L (- L) = take (length ks - 2 * nat L) (drop (nat L) ks)"
proof -
  have a: "slice_bound (length ks) L = nat L"
    using assms by (auto simp add: slice_bound_def min_def)
  have b: "slice_bound (length ks) (- L) = length ks - nat L"
    using assms by (auto simp add: slice_bound_def max_def nat_diff_distrib)
  have c: "length ks - nat L - nat L = length ks - 2 * nat L"
    by simp
  show ?thesis
    by (simp only: py_slice_def Let_def a b c)
qed

lemma left_knot_window:
  assumes "1 \<le> length' K" "2 * length' K < int (length (knots K))"
  defines "w \<equiv> take (length (knots K) - 2 * nat (length' K)) (drop (nat (length' K)) (knots K))"
  shows "left_knot K t =
      (if \<forall>x\<in>set w. t + ktol < x then Inl (ValueError ''Time too small'')
       else if \<forall>x\<in>set w. x \<le> t + ktol then Inl (ValueError ''Time too big'')
       else Inr (int (length (takeWhile (\<lambda>x. x \<le> t + ktol) w)) - 1 + length' K))"
proof -
  have tw: "takeWhile Not (map (\<lambda>d. ktol < d) (map (\<lambda>k. k - t) w)) = 
     map (\<lambda>d. ktol < d) (map (\<lambda>k. k - t) (takeWhile (\<lambda>x. x \<le> t + ktol) w))"
    by (simp add: takeWhile_map comp_def not_less algebra_simps)
  have 1: "list_all id (map (\<lambda>d. ktol < d) (map (\<lambda>k. k - t) w)) \<longleftrightarrow> (\<forall>x\<in>set w. t + ktol < x)"
    by (auto simp: list_all_iff)
  have 2: "list_all Not (map (\<lambda>d. ktol < d) (map (\<lambda>k. k - t) w)) \<longleftrightarrow> (\<forall>x\<in>set w. x \<le> t + ktol)"
    by (auto simp: list_all_iff not_less)
  have 3: "\<not> (\<forall>x\<in>set w. x \<le> t + ktol) \<Longrightarrow> True \<in> set (map (\<lambda>d. ktol < d) (map (\<lambda>k. k - t) w))"
    by (force simp: image_iff not_le)
  show ?thesis
    unfolding left_knot_def Let_def window_slice[OF assms(1,2)] w_def[symmetric] 1 2 np_argmax_def tw
    using 3 by (auto simp del: map_map)
qed


lemma left_knot_sorted_cases:
  assumes L: "1 \<le> length' K" "2 * length' K < int (length (knots K))"
    and srt: "sorted (knots K)"
  defines "n \<equiv> length (knots K)"
  defines "lo \<equiv> knots K ! nat (length' K)"
  defines "hi \<equiv> knots K ! (n - 1 - nat (length' K))"
  shows "(t < lo - ktol \<longrightarrow> left_knot K t = Inl (ValueError ''Time too small''))
       \<and> (lo - ktol \<le> t \<and> hi - ktol \<le> t \<longrightarrow> left_knot K t = Inl (ValueError ''Time too big''))
       \<and> (lo - ktol \<le> t \<and> t < hi - ktol \<longrightarrow>
            (\<exists>k. left_knot K t = Inr k \<and> length' K \<le> k \<and> k + 1 \<le> int n - 1 - length' K
               \<and> knots K ! nat k - ktol \<le> t \<and> t < knots K ! nat (k + 1) - ktol))"
proof -
  define l where "l = nat (length' K)"
  define w where "w = take (n - 2 * l) (drop l (knots K))"
  have l1: "1 \<le> l" and ln: "2 * l < n" and lL: "int l = length' K"
    using L by (auto simp: l_def n_def)
  have lenw: "length w = n - 2 * l"
    using ln by (simp add: w_def n_def)
  have wnth: "\<And>i. i < n - 2 * l \<Longrightarrow> w ! i = knots K ! (l + i)"
    using ln by (simp add: w_def n_def)
  have sw: "sorted w"
    unfolding w_def using srt by (simp add: sorted_wrt_take sorted_wrt_drop)
  have w0: "w ! 0 = lo" using wnth[of 0] ln by (simp add: lo_def l_def)
  have wl: "w ! (n - 2 * l - 1) = hi"
  proof -
    have "l + (n - 2 * l - 1) = n - 1 - l" using ln by simp
    then show ?thesis using wnth[of "n - 2 * l - 1"] ln by (simp add: hi_def l_def)
  qed
  have lo_le: "\<And>x. x \<in> set w \<Longrightarrow> lo \<le> x"
  proof -
    fix x assume "x \<in> set w"
    then obtain i where "i < length w" "w ! i = x" by (auto simp: in_set_conv_nth)
    then show "lo \<le> x" using sorted_nth_mono[OF sw, of 0 i] w0 by simp
  qed
  have le_hi: "\<And>x. x \<in> set w \<Longrightarrow> x \<le> hi"
  proof -
    fix x assume "x \<in> set w"
    then obtain i where i: "i < length w" "w ! i = x" by (auto simp: in_set_conv_nth)
    then show "x \<le> hi" using sorted_nth_mono[OF sw, of i "n - 2 * l - 1"] wl lenw by simp
  qed
  have lo_in: "lo \<in> set w" using w0 lenw ln by (metis nth_mem zero_less_diff)
  have hi_in: "hi \<in> set w" using wl lenw ln
    by (metis diff_less nth_mem zero_less_diff zero_less_one)
  note lk = left_knot_window[OF L, of t, folded n_def l_def, folded w_def]
  have small: "(\<forall>x\<in>set w. t + ktol < x) \<longleftrightarrow> t < lo - ktol"
    using lo_le lo_in by force
  have big: "(\<forall>x\<in>set w. x \<le> t + ktol) \<longleftrightarrow> hi - ktol \<le> t"
    using le_hi hi_in by force
  have A: "t < lo - ktol \<longrightarrow> left_knot K t = Inl (ValueError ''Time too small'')"
    using lk small by simp
  have B: "lo - ktol \<le> t \<and> hi - ktol \<le> t \<longrightarrow> left_knot K t = Inl (ValueError ''Time too big'')"
    using lk small big by simp
  have C: "\<exists>k. left_knot K t = Inr k \<and> length' K \<le> k \<and> k + 1 \<le> int n - 1 - length' K
               \<and> knots K ! nat k - ktol \<le> t \<and> t < knots K ! nat (k + 1) - ktol"
    if t: "lo - ktol \<le> t" "t < hi - ktol"
  proof -
    define j where "j = length (takeWhile (\<lambda>x. x \<le> t + ktol) w)"
    have res: "left_knot K t = Inr (int j - 1 + length' K)"
      using lk small big t by (simp add: j_def)
    have jlt: "j < length w"
    proof (rule ccontr)
      assume "\<not> j < length w"
      then have "takeWhile (\<lambda>x. x \<le> t + ktol) w = w"
        using length_takeWhile_le[of "\<lambda>x. x \<le> t + ktol" w] 
        by (metis j_def le_antisym not_less takeWhile_eq_take take_all)
      then have "\<forall>x\<in>set w. x \<le> t + ktol" by (metis set_takeWhileD)
      with big t show False by simp
    qed
    have jpos: "0 < j"
    proof (rule ccontr)
      assume "\<not> 0 < j"
      then have "takeWhile (\<lambda>x. x \<le> t + ktol) w = []" by (simp add: j_def)
      then have "\<not> w ! 0 \<le> t + ktol" using jlt by (cases w) (auto split: if_splits)
      with w0 t show False by simp
    qed
    have right: "\<not> w ! j \<le> t + ktol"
      using nth_length_takeWhile[of "\<lambda>x. x \<le> t + ktol" w] jlt by (simp add: j_def)
    have "w ! (j - 1) \<in> set (takeWhile (\<lambda>x. x \<le> t + ktol) w)"
      using jpos takeWhile_nth[of "j - 1" "\<lambda>x. x \<le> t + ktol" w]
      by (metis diff_less j_def nth_mem zero_less_one)
    then have left: "w ! (j - 1) \<le> t + ktol" by (metis set_takeWhileD)
    have k1: "nat (int j - 1 + length' K) = l + (j - 1)"
      using jpos lL by auto
    have k2: "nat (int j - 1 + length' K + 1) = l + j"
      using jpos lL by auto
    have "knots K ! nat (int j - 1 + length' K) - ktol \<le> t"
      unfolding k1 using left wnth[of "j - 1"] jlt lenw by simp
    moreover have "t < knots K ! nat (int j - 1 + length' K + 1) - ktol"
      unfolding k2 using right wnth[of j] jlt lenw by simp
    moreover have "length' K \<le> int j - 1 + length' K" using jpos by simp
    moreover have "int j - 1 + length' K + 1 \<le> int n - 1 - length' K"
      using jlt lenw lL ln by linarith
    ultimately show ?thesis using res by blast
  qed
  from A B C show ?thesis by blast
qed

text \<open>With degree 1 the window \<^verbatim>\<open>knots[0:-0]\<close> is empty, and every parameter is too small.\<close>

lemma left_knot_degree_one:
  "degree K = 1 \<Longrightarrow> left_knot K t = Inl (ValueError ''Time too small'')"
  by (simp add: degree_def left_knot_def py_slice_def slice_bound_def)

subsection \<open>The moving average of \<open>abscissae\<close>\<close>

lemma sum_list_const_kernel:
  assumes "i + d \<le> length ks" "0 < d"
  shows "sum_list (map (\<lambda>j. (map (\<lambda>x. x / c) (replicate d 1)) ! j * ks ! (i + d - 1 - j)) [0..<d])
       = (\<Sum>j<d. ks ! (i + j)) / (c::real)"
proof -
  have "sum_list (map (\<lambda>j. (map (\<lambda>x. x / c) (replicate d 1)) ! j * ks ! (i + d - 1 - j)) [0..<d])
      = (\<Sum>j<d. (map (\<lambda>x. x / c) (replicate d 1)) ! j * ks ! (i + d - 1 - j))"
    by (simp add: interv_sum_list_conv_sum_set_nat atLeast0LessThan)
  also have "\<dots> = (\<Sum>j<d. ks ! (i + (d - Suc j)) / c)"
    by (rule sum.cong) (auto simp: Suc_diff_Suc)
  also have "\<dots> = (\<Sum>j<d. ks ! (i + j) / c)"
    by (rule sum.nat_diff_reindex)
  also have "\<dots> = (\<Sum>j<d. ks ! (i + j)) / c"
    by (simp add: sum_divide_distrib)
  finally show ?thesis .
qed

lemma sum_list_kernel_full:
  assumes "0 < d"
  shows "sum_list (map (\<lambda>j. ks ! j * (map (\<lambda>x. x / c) (replicate d 1)) ! (d - 1 - j)) [0..<d])
       = (\<Sum>j<d. ks ! j) / (c::real)"
proof -
  have "sum_list (map (\<lambda>j. ks ! j * (map (\<lambda>x. x / c) (replicate d 1)) ! (d - 1 - j)) [0..<d])
      = (\<Sum>j<d. ks ! j * (map (\<lambda>x. x / c) (replicate d 1)) ! (d - 1 - j))"
    by (simp add: interv_sum_list_conv_sum_set_nat atLeast0LessThan)
  also have "\<dots> = (\<Sum>j<d. ks ! j / c)"
    by (rule sum.cong) auto
  also have "\<dots> = (\<Sum>j<d. ks ! j) / c"
    by (simp add: sum_divide_distrib)
  finally show ?thesis .
qed

lemma abscissae_general:
  assumes d1: "1 \<le> degree K" and dn: "degree K \<le> int (length (knots K))"
  shows "abscissae K = Inr (map (\<lambda>i. (\<Sum>j<nat (degree K). knots K ! (i + j)) / real_of_int (degree K))
                        [0..<length (knots K) - nat (degree K) + 1])"
proof -
  define d where "d = nat (degree K)"
  define ks where "ks = knots K"
  define c where "c = real_of_int (degree K)"
  define kernel where "kernel = map (\<lambda>x. x / c) (replicate d (1::real))"
  have dpos: "0 < d" and dle: "d \<le> length ks"
    using d1 dn by (auto simp: d_def ks_def)
  have lk: "length kernel = d" by (simp add: kernel_def)
  have ne: "kernel \<noteq> []" "ks \<noteq> []" using dpos dle lk by auto
  have abs: "abscissae K = np_convolve_valid kernel ks"
    using d1 by (simp add: abscissae_def kernel_def d_def ks_def c_def)
  show ?thesis
  proof (cases "d < length ks")
    case True
    have "np_convolve_valid kernel ks =
        Inr (map (\<lambda>k. sum_list (map (\<lambda>j. kernel ! j * ks ! (k + d - 1 - j)) [0..<d]))
               [0..<length ks - d + 1])"
      using True ne by (simp add: np_convolve_valid_def lk)
    also have "\<dots> = Inr (map (\<lambda>i. (\<Sum>j<d. ks ! (i + j)) / c) [0..<length ks - d + 1])"
    proof -
      have *: "\<And>k. k \<in> set [0..<length ks - d + 1] \<Longrightarrow>
          sum_list (map (\<lambda>j. kernel ! j * ks ! (k + d - 1 - j)) [0..<d]) = (\<Sum>j<d. ks ! (k + j)) / c"
        unfolding kernel_def using True dpos by (intro sum_list_const_kernel) auto
      have "map (\<lambda>k. sum_list (map (\<lambda>j. kernel ! j * ks ! (k + d - 1 - j)) [0..<d])) [0..<length ks - d + 1]
          = map (\<lambda>i. (\<Sum>j<d. ks ! (i + j)) / c) [0..<length ks - d + 1]"
        by (rule map_cong[OF refl]) (rule *)
      then show ?thesis by (simp only:)
    qed
    finally show ?thesis unfolding abs by (simp add: d_def ks_def c_def)
  next
    case False
    then have eq: "length ks = d" using dle by simp
    have "np_convolve_valid kernel ks =
        Inr (map (\<lambda>k. sum_list (map (\<lambda>j. ks ! j * kernel ! (k + d - 1 - j)) [0..<d])) [0..<1])"
      using ne by (simp add: np_convolve_valid_def lk eq)
    also have "\<dots> = Inr [(\<Sum>j<d. ks ! j) / c]"
      using sum_list_kernel_full[OF dpos, of ks c] by (simp add: kernel_def)
    finally show ?thesis unfolding abs by (simp add: d_def[symmetric] ks_def[symmetric] c_def eq)
  qed
qed

section \<open>Claims about the knot vector\<close>

text \<open>
  C2, as amended. For a knot vector of degree at least 2 with non-decreasing knots and
  a non-empty window (\<open>nb_curves \<ge> 0\<close>), write \<open>lo = knots[degree-1]\<close> for the first and
  \<open>hi = knots[-degree]\<close> for the last usable knot. Then \<open>left_knot(t)\<close> raises
  "Time too small" exactly below \<open>lo - ktol\<close>, raises "Time too big" from \<open>hi - ktol\<close> on,
  and in between, the first usable knot included, returns the index \<open>k\<close> of the interval
  with \<open>knots[k] - ktol \<le> t < knots[k+1] - ktol\<close>.
\<close>

theorem left_knot_domain:
  assumes "2 \<le> degree K" "0 \<le> nb_curves K" "sorted (knots K)"
  shows "(t < knots K ! nat (degree K - 1) - ktol \<longrightarrow>
            left_knot K t = Inl (ValueError ''Time too small''))
       \<and> (knots K ! nat (degree K - 1) - ktol \<le> t
            \<and> knots K ! (length (knots K) - nat (degree K)) - ktol \<le> t \<longrightarrow>
            left_knot K t = Inl (ValueError ''Time too big''))
       \<and> (knots K ! nat (degree K - 1) - ktol \<le> t
            \<and> t < knots K ! (length (knots K) - nat (degree K)) - ktol \<longrightarrow>
            (\<exists>k. left_knot K t = Inr k \<and> degree K - 1 \<le> k
               \<and> k < int (length (knots K)) - degree K
               \<and> knots K ! nat k - ktol \<le> t \<and> t < knots K ! nat (k + 1) - ktol))"
proof -
  have L: "1 \<le> length' K" "2 * length' K < int (length (knots K))"
    using assms(1,2) by (auto simp: degree_def nb_curves_def)
  have i1: "nat (degree K - 1) = nat (length' K)"
    by (simp add: degree_def)
  have i2: "length (knots K) - nat (degree K) = length (knots K) - 1 - nat (length' K)"
    using L by (simp add: degree_def nat_add_distrib)
  have i3: "\<And>k. (k + 1 \<le> int (length (knots K)) - 1 - length' K)
              = (k < int (length (knots K)) - degree K)"
    by (auto simp: degree_def)
  have i4: "degree K - 1 = length' K"
    by (simp add: degree_def)
  show ?thesis
    using left_knot_sorted_cases[OF L assms(3), of t]
    unfolding i1 i2 i3 i4 by blast
qed

theorem left_knot_domain_witness:
  "2 \<le> degree (Knots_init [1, 2, 3, 4, 5, 6, 7] 3)
   \<and> 0 \<le> nb_curves (Knots_init [1, 2, 3, 4, 5, 6, 7] 3)
   \<and> sorted (knots (Knots_init [1, 2, 3, 4, 5, 6, 7] 3))
   \<and> left_knot (Knots_init [1, 2, 3, 4, 5, 6, 7] 3) (5 / 2) = Inl (ValueError ''Time too small'')
   \<and> left_knot (Knots_init [1, 2, 3, 4, 5, 6, 7] 3) 5 = Inl (ValueError ''Time too big'')
   \<and> (\<exists>k. left_knot (Knots_init [1, 2, 3, 4, 5, 6, 7] 3) 3 = Inr k \<and> 2 \<le> k \<and> k < 4)"
proof -
  let ?K = "Knots_init [1, 2, 3, 4, 5, 6, 7] 3"
  have h: "2 \<le> degree ?K" "0 \<le> nb_curves ?K" "sorted (knots ?K)"
    by (simp_all add: degree_def nb_curves_def Knots_init_def)
  have a: "left_knot ?K (5 / 2) = Inl (ValueError ''Time too small'')"
    using left_knot_domain[OF h, of "5 / 2"] by (simp add: degree_def Knots_init_def ktol_def)
  have b: "left_knot ?K 5 = Inl (ValueError ''Time too big'')"
    using left_knot_domain[OF h, of 5] by (simp add: degree_def Knots_init_def ktol_def)
  have c: "\<exists>k. left_knot ?K 3 = Inr k \<and> 2 \<le> k \<and> k < 4"
    using left_knot_domain[OF h, of 3] by (simp add: degree_def Knots_init_def ktol_def) blast
  from h a b c show ?thesis by blast
qed

text \<open>
  C2 as stated fails at the first usable knot: for the knots \<open>[1,..,7]\<close> of degree 3 the
  first usable knot is \<open>knots[2] = 3\<close>, and \<open>left_knot(3)\<close> returns 2 without raising.
\<close>

theorem left_knot_first_knot_counterexample:
  "knots (Knots_init [1, 2, 3, 4, 5, 6, 7] 3) ! nat (degree (Knots_init [1, 2, 3, 4, 5, 6, 7] 3) - 1) = 3
   \<and> left_knot (Knots_init [1, 2, 3, 4, 5, 6, 7] 3) 3 = Inr 2"
  by (simp add: Knots_init_def degree_def left_knot_def py_slice_def slice_bound_def
      ktol_def np_argmax_def)

text \<open>
  C8. \<open>abscissae()\<close> returns the moving averages of \<open>degree\<close> consecutive knots,
  \<open>len(knots) - degree + 1\<close> of them, whenever \<open>1 \<le> degree \<le> len(knots)\<close>; for the knots
  \<open>[0,0,0,2,3,4,5,5,5]\<close> of degree 3 it returns \<open>[0, 2/3, 5/3, 3, 4, 14/3, 5]\<close>.
\<close>

theorem abscissae_greville:
  "(1 \<le> degree K \<and> degree K \<le> int (length (knots K)) \<longrightarrow>
      (\<exists>res. abscissae K = Inr res
         \<and> length res = length (knots K) - nat (degree K) + 1
         \<and> (\<forall>i < length res.
              res ! i = (\<Sum>j<nat (degree K). knots K ! (i + j)) / real_of_int (degree K))))
   \<and> abscissae (Knots_init [0, 0, 0, 2, 3, 4, 5, 5, 5] 3) = Inr [0, 2 / 3, 5 / 3, 3, 4, 14 / 3, 5]"
proof (intro conjI impI)
  assume "1 \<le> degree K \<and> degree K \<le> int (length (knots K))"
  then have "abscissae K =
      Inr (map (\<lambda>i. (\<Sum>j<nat (degree K). knots K ! (i + j)) / real_of_int (degree K))
             [0..<length (knots K) - nat (degree K) + 1])"
    using abscissae_general by blast
  then show "\<exists>res. abscissae K = Inr res
         \<and> length res = length (knots K) - nat (degree K) + 1
         \<and> (\<forall>i < length res.
              res ! i = (\<Sum>j<nat (degree K). knots K ! (i + j)) / real_of_int (degree K))"
    by (simp del: upt_Suc)
next
  show "abscissae (Knots_init [0, 0, 0, 2, 3, 4, 5, 5, 5] 3) = Inr [0, 2 / 3, 5 / 3, 3, 4, 14 / 3, 5]"
    by (simp add: abscissae_def Knots_init_def degree_def np_convolve_valid_def
        upt_conv_Cons numeral_eq_Suc)
qed

theorem abscissae_greville_witness:
  "1 \<le> degree (Knots_init [0, 0, 0, 2, 3, 4, 5, 5, 5] 3)
   \<and> degree (Knots_init [0, 0, 0, 2, 3, 4, 5, 5, 5] 3)
       \<le> int (length (knots (Knots_init [0, 0, 0, 2, 3, 4, 5, 5, 5] 3)))
   \<and> (\<exists>res. abscissae (Knots_init [0, 0, 0, 2, 3, 4, 5, 5, 5] 3) = Inr res \<and> length res = 7
        \<and> res ! 1 = (0 + 0 + 2) / 3)"
proof -
  let ?K = "Knots_init [0, 0, 0, 2, 3, 4, 5, 5, 5] 3"
  have h: "1 \<le> degree ?K \<and> degree ?K \<le> int (length (knots ?K))"
    by (simp add: degree_def Knots_init_def)
  have d: "nat (degree ?K) = 3" "length (knots ?K) = 9" "real_of_int (degree ?K) = 3"
    by (simp_all add: degree_def Knots_init_def)
  from abscissae_greville[of ?K] h
  obtain res where r: "abscissae ?K = Inr res" "length res = length (knots ?K) - nat (degree ?K) + 1"
      "\<forall>i < length res. res ! i = (\<Sum>j<nat (degree ?K). knots ?K ! (i + j)) / real_of_int (degree ?K)"
    by blast
  have "length res = 7" using r(2) unfolding d by simp
  moreover have "res ! 1 = (0 + 0 + 2) / 3"
    using r(3) \<open>length res = 7\<close> unfolding d
    by (simp add: Knots_init_def lessThan_Suc numeral_3_eq_3)
  ultimately show ?thesis using h r(1) by blast
qed

text \<open>
  C9. For the knots \<open>[1,..,7]\<close> of degree 3, every parameter between \<open>4 - ktol\<close> and the
  knot 4 resolves to the interval of the knot itself: \<open>left_knot\<close> returns 3, as it does
  at 4, and not the index 2 of the interval before; so does \<open>4 - 1e-14\<close>.
\<close>

theorem left_knot_tolerance:
  assumes "4 - ktol \<le> t" "t \<le> 4"
  shows "left_knot (Knots_init [1, 2, 3, 4, 5, 6, 7] 3) t = Inr 3
       \<and> left_knot (Knots_init [1, 2, 3, 4, 5, 6, 7] 3) t
           = left_knot (Knots_init [1, 2, 3, 4, 5, 6, 7] 3) 4"
proof -
  have w: "py_slice [1, 2, 3, 4, 5, 6, 7 :: real] 2 (- 2) = [3, 4, 5]"
    by (simp add: py_slice_def slice_bound_def)
  have k: "ktol < 1 / 2" "0 < ktol" by (simp_all add: ktol_def)
  have a: "left_knot (Knots_init [1, 2, 3, 4, 5, 6, 7] 3) t = Inr 3"
    using assms k by (simp add: left_knot_def Knots_init_def w np_argmax_def)
  have b: "left_knot (Knots_init [1, 2, 3, 4, 5, 6, 7] 3) 4 = Inr 3"
    using k by (simp add: left_knot_def Knots_init_def w np_argmax_def)
  from a b show ?thesis by simp
qed

theorem left_knot_tolerance_witness:
  "4 - ktol \<le> 4 - 1 / 10 ^ 14 \<and> (4 - 1 / 10 ^ 14 :: real) \<le> 4
   \<and> left_knot (Knots_init [1, 2, 3, 4, 5, 6, 7] 3) (4 - 1 / 10 ^ 14)
       = left_knot (Knots_init [1, 2, 3, 4, 5, 6, 7] 3) 4
   \<and> left_knot (Knots_init [1, 2, 3, 4, 5, 6, 7] 3) (4 - 1 / 10 ^ 14) = Inr 3"
proof -
  have h: "4 - ktol \<le> 4 - 1 / 10 ^ 14" "(4 - 1 / 10 ^ 14 :: real) \<le> 4"
    by (simp_all add: ktol_def)
  show ?thesis using h left_knot_tolerance[OF h] by blast
qed

section \<open>Properties of spline evaluation\<close>

subsection \<open>Errors and the rounds of the evaluation\<close>


lemma bind_err_simps [simp]:
  "bind_err (Inl e) f = Inl e"
  "bind_err (Inr x) f = f x"
  by (simp_all add: bind_err_def)

lemma bind_err_eq_Inl:
  "bind_err m f = Inl e \<longleftrightarrow> m = Inl e \<or> (\<exists>x. m = Inr x \<and> f x = Inl e)"
  by (cases m) auto

lemma bind_err_eq_Inr:
  "bind_err m f = Inr y \<longleftrightarrow> (\<exists>x. m = Inr x \<and> f x = Inr y)"
  by (cases m) auto


lemma all_ok_map_Inr: "(\<And>x. x \<in> set xs \<Longrightarrow> f x = Inr (g x)) \<Longrightarrow> all_ok (map f xs) = Inr (map g xs)"
  by (induction xs) auto


lemma np_broadcast_same: "length xs = length ys \<Longrightarrow> np_broadcast xs ys = Inr (zip xs ys)"
  by (simp add: np_broadcast_def)


lemma py_slice_all: "py_slice xs 0 (int (length xs)) = xs"
  by (simp add: py_slice_def slice_bound_def)

lemma py_slice_init: "n \<le> length xs \<Longrightarrow> 0 < n \<Longrightarrow> py_slice xs 0 (- int n) = take (length xs - n) xs"
  by (simp add: py_slice_def slice_bound_def Let_def max_def nat_diff_distrib)

lemma py_slice_inner: "2 \<le> length xs \<Longrightarrow> py_slice xs 1 (- 1) = butlast (tl xs)"
  by (auto simp add: py_slice_def slice_bound_def Let_def max_def butlast_conv_take drop_Suc nat_diff_distrib min_def)










subsection \<open>The Bezier specialisation\<close>

lemma length_de_casteljau: "length (de_casteljau n pts t) = length pts - n"
  by (induction n arbitrary: pts) auto

lemma map2_replicate_right:
  "length xs = n \<Longrightarrow> map (\<lambda>(p, theta). f p theta) (zip xs (replicate n t)) = map (\<lambda>p. f p t) xs"
  by (induction xs arbitrary: n) auto

lemma rounds_bezier:
  "length pts = D + 1 \<Longrightarrow>
     rounds (rev [1..<D + 1]) t (replicate D 0 @ replicate D 1) pts = Inr (de_casteljau D pts t)"
proof (induction D arbitrary: pts)
  case 0
  then show ?case by simp
next
  case (Suc D)
  let ?kns = "replicate (Suc D) 0 @ replicate (Suc D) (1::real)"
  have r: "rev [1..<Suc D + 1] = Suc D # rev [1..<D + 1]" by simp
  have s: "py_slice ?kns 0 (- int (Suc D)) = replicate (Suc D) 0"
    using py_slice_init[of "Suc D" ?kns] by simp
  have d: "drop (Suc D) ?kns = replicate (Suc D) 1" by simp
  have diffs: "map (\<lambda>d. if d = 0 then eps else d)
     (map2 (\<lambda>a b. a - b) (replicate (Suc D) (1::real)) (replicate (Suc D) 0)) = replicate (Suc D) 1"
    by (simp add: zip_replicate map_replicate del: replicate_Suc)
  have rc: "map2 (\<lambda>k d. (t - k) / d) (replicate (Suc D) (0::real)) (replicate (Suc D) 1) = replicate (Suc D) t"
    by (simp add: zip_replicate map_replicate del: replicate_Suc)
  have z: "0 \<notin> set (replicate (Suc D) (1::real))" by simp
  have lz: "length (zip (butlast pts) (tl pts)) = Suc D" using Suc.prems by simp
  have b: "np_broadcast (zip (butlast pts) (tl pts)) (replicate (Suc D) t)
      = Inr (zip (zip (butlast pts) (tl pts)) (replicate (Suc D) t))"
    using lz by (simp add: np_broadcast_same del: replicate_Suc)
  have m: "map (\<lambda>((P1, P2), theta). geodesic P1 P2 theta) (zip (zip (butlast pts) (tl pts)) (replicate (Suc D) t))
      = map2 (\<lambda>P1 P2. geodesic P1 P2 t) (butlast pts) (tl pts)"
    using map2_replicate_right[OF lz, of "\<lambda>(P1, P2) theta. geodesic P1 P2 theta" t]
    by (simp add: case_prod_unfold)
  have "?kns = 0 # (replicate D 0 @ replicate D 1) @ [1]"
    by (simp add: replicate_append_same)
  then have k: "py_slice ?kns 1 (- 1) = replicate D 0 @ replicate D 1"
    by (simp add: py_slice_inner butlast_append del: replicate_Suc)
  have lp: "length (map2 (\<lambda>P1 P2. geodesic P1 P2 t) (butlast pts) (tl pts)) = D + 1"
    using Suc.prems by simp
  have "rounds (rev [1..<Suc D + 1]) t ?kns pts =
      rounds (rev [1..<D + 1]) t (replicate D 0 @ replicate D 1)
        (map2 (\<lambda>P1 P2. geodesic P1 P2 t) (butlast pts) (tl pts))"
    unfolding r rounds.simps Let_def s d diffs rc k
    using z b m by (simp del: replicate_Suc)
  then show ?case using Suc.IH[OF lp] by simp
qed

lemma Bezier_init_value:
  assumes "length cps = Suc D"
  shows "Bezier_init cps = Inr \<lparr>knots = replicate D 0 @ replicate D 1,
            length' = int D - 1, control_points = cps, rknot = int D\<rparr>"
proof -
  have a: "nat (2 * (int (Suc D) - 1)) = D + D" "nat (int (Suc D) - 1) = D"
    by auto
  have t: "take D (replicate (D + D) (0::real)) = replicate D 0"
    by simp
  have d: "map (\<lambda>_. 1::real) (drop D (replicate (D + D) (0::real))) = replicate D 1"
    by (simp add: map_replicate_const)
  show ?thesis
    unfolding Bezier_init_def Let_def assms a t d
    by (simp add: BSpline_init_def Let_def assms)
qed

lemma Bezier_call_value:
  assumes init: "Bezier_init cps = Inr b" and ne: "cps \<noteq> []"
  shows "Bezier_call b ts =
     (if length cps = 1 then Inr [hd cps]
      else Inr (map (\<lambda>t. hd (de_casteljau (length cps - 1) cps t)) ts))"
proof -
  define D where "D = length cps - 1"
  have n: "length cps = D + 1" using ne by (simp add: D_def)
  have "b = \<lparr>knots = replicate D 0 @ replicate D 1,
            length' = int D - 1, control_points = cps, rknot = int D\<rparr>"
    using init Bezier_init_value[of cps D] n by (simp only: Suc_eq_plus1 sum.inject)
  then have b: "knots b = replicate D 0 @ replicate D 1" "length' b = int D - 1"
     "control_points b = cps" "rknot b = int D" "degree b = int D"
    by (simp_all add: degree_def)
  have p: "py_slice cps (int D - 1 - (int D - 1)) (int D - 1 + 2) = cps"
  proof -
    have "int D - 1 - (int D - 1) = 0" "int D - 1 + 2 = int (length cps)"
      by (simp_all add: n)
    then show ?thesis by (simp only: py_slice_all)
  qed
  have k: "py_slice (replicate D 0 @ replicate D (1::real)) (int D - 1 - int D + 1) (int D - 1 + int D + 1)
       = replicate D 0 @ replicate D 1"
  proof -
    have "int D - 1 - int D + 1 = 0"
      "int D - 1 + int D + 1 = int (length (replicate D 0 @ replicate D (1::real)))"
      by simp_all
    then show ?thesis by (simp only: py_slice_all)
  qed
  have one: "\<And>t. bind_err (rounds (rev [1..<D + 1]) t (replicate D 0 @ replicate D 1) cps) first_point
      = Inr (hd (de_casteljau D cps t))"
  proof -
    fix t
    have "length (de_casteljau D cps t) = 1" by (simp add: length_de_casteljau n)
    then obtain q where "de_casteljau D cps t = [q]"
      by (cases "de_casteljau D cps t") auto
    then show "bind_err (rounds (rev [1..<D + 1]) t (replicate D 0 @ replicate D 1) cps) first_point
      = Inr (hd (de_casteljau D cps t))"
      by (simp only: rounds_bezier[OF n] bind_err_simps first_point_def list.case list.sel)
  qed
  have nd: "nat (int D) + 1 = D + 1" by simp
  show ?thesis
  proof (cases "D = 0")
    case True
    then obtain q where q: "cps = [q]" using n by (cases cps) auto
    show ?thesis
      unfolding Bezier_call_def BSpline_call_def b
      by (simp add: True q py_slice_def slice_bound_def first_point_def)
  next
    case False
    have "Bezier_call b ts = BSpline_call b ts (Some (int D - 1))"
      by (simp only: Bezier_call_def b)
    also have "\<dots> = (if int (length cps) \<noteq> int D - 1 + 2 then Inl (ValueError ''Wrong knot index.'')
             else if int D \<le> 0 then bind_err (first_point cps) (\<lambda>p. Inr [p])
             else if ts = [] then bind_err (Inr (hd (de_casteljau D cps 0))) (\<lambda>_. Inr [])
                  else all_ok (map (\<lambda>t. Inr (hd (de_casteljau D cps t))) ts))"
      by (simp only: BSpline_call_def option.case bind_err_simps b Let_def p k nd one)
    also have "\<dots> = (if ts = [] then Inr [] else all_ok (map (\<lambda>t. Inr (hd (de_casteljau D cps t))) ts))"
      using False by (simp add: n)
    finally have "Bezier_call b ts = (if ts = [] then Inr [] else all_ok (map (\<lambda>t. Inr (hd (de_casteljau D cps t))) ts))" .
    also have "\<dots> = Inr (map (\<lambda>t. hd (de_casteljau D cps t)) ts)"
      by (simp add: all_ok_map_Inr)
    finally show ?thesis unfolding D_def[symmetric] using False by (simp add: n)
  qed
qed

subsection \<open>The Bernstein form of the Bezier curve\<close>

lemma bernstein_step:
  fixes t :: real and a :: "nat \<Rightarrow> real"
  shows "(\<Sum>i\<le>n. real (n choose i) * (1 - t) ^ (n - i) * t ^ i * ((1 - t) * a i + t * a (Suc i)))
       = (\<Sum>i\<le>Suc n. real (Suc n choose i) * (1 - t) ^ (Suc n - i) * t ^ i * a i)"
proof -
  define x where "x = (\<lambda>i. (1 - t) ^ (Suc n - i) * t ^ i * a i)"
  have l1: "(\<Sum>i\<le>n. real (n choose i) * (1 - t) ^ (n - i) * t ^ i * ((1 - t) * a i))
      = (\<Sum>i\<le>n. real (n choose i) * x i)"
    by (rule sum.cong) (auto simp: x_def Suc_diff_le)
  have l2: "(\<Sum>i\<le>n. real (n choose i) * (1 - t) ^ (n - i) * t ^ i * (t * a (Suc i)))
      = (\<Sum>i\<le>n. real (n choose i) * x (Suc i))"
    by (rule sum.cong) (auto simp: x_def)
  have lhs: "(\<Sum>i\<le>n. real (n choose i) * (1 - t) ^ (n - i) * t ^ i * ((1 - t) * a i + t * a (Suc i)))
      = (\<Sum>i\<le>n. real (n choose i) * x i) + (\<Sum>i\<le>n. real (n choose i) * x (Suc i))"
    unfolding l1[symmetric] l2[symmetric] by (simp add: sum.distrib[symmetric] algebra_simps)
  have "(\<Sum>i\<le>Suc n. real (Suc n choose i) * x i)
      = x 0 + (\<Sum>i\<le>n. real (Suc n choose Suc i) * x (Suc i))"
    by (simp add: sum.atMost_Suc_shift del: sum.atMost_Suc binomial_Suc_Suc)
  also have "\<dots> = x 0 + (\<Sum>i\<le>n. real (n choose i) * x (Suc i)) + (\<Sum>i\<le>n. real (n choose Suc i) * x (Suc i))"
    by (simp add: sum.distrib algebra_simps del: sum.atMost_Suc)
  also have "(\<Sum>i\<le>n. real (n choose Suc i) * x (Suc i)) = (\<Sum>i<n. real (n choose Suc i) * x (Suc i))"
    by (simp add: lessThan_Suc_atMost[symmetric] del: binomial_Suc_Suc)
  also have "x 0 + (\<Sum>i\<le>n. real (n choose i) * x (Suc i)) + (\<Sum>i<n. real (n choose Suc i) * x (Suc i))
      = (\<Sum>i<Suc n. real (n choose i) * x i) + (\<Sum>i\<le>n. real (n choose i) * x (Suc i))"
    by (simp add: sum.lessThan_Suc_shift del: sum.lessThan_Suc)
  finally have rhs: "(\<Sum>i\<le>Suc n. real (Suc n choose i) * x i)
      = (\<Sum>i\<le>n. real (n choose i) * x i) + (\<Sum>i\<le>n. real (n choose i) * x (Suc i))"
    by (simp add: lessThan_Suc_atMost)
  have "(\<Sum>i\<le>Suc n. real (Suc n choose i) * (1 - t) ^ (Suc n - i) * t ^ i * a i)
      = (\<Sum>i\<le>Suc n. real (Suc n choose i) * x i)"
    by (rule sum.cong) (auto simp: x_def)
  then show ?thesis using lhs rhs by simp
qed


lemma length_geodesic: "length (geodesic P1 P2 theta) = min (length P1) (length P2)"
  by (simp add: geodesic_def)

lemma nth_geodesic:
  "c < length P1 \<Longrightarrow> c < length P2 \<Longrightarrow> geodesic P1 P2 theta ! c = (1 - theta) * P1 ! c + theta * P2 ! c"
  by (simp add: geodesic_def)

lemma de_casteljau_bernstein:
  assumes "\<forall>p\<in>set pts. length p = dm" "k + n < length pts"
  shows "de_casteljau n pts t ! k =
     map (\<lambda>c. \<Sum>i\<le>n. real (n choose i) * (1 - t) ^ (n - i) * t ^ i * pts ! (k + i) ! c) [0..<dm]"
  using assms
proof (induction n arbitrary: pts k)
  case 0
  then have "length (pts ! k) = dm" by simp
  then have "map (\<lambda>c. pts ! k ! c) [0..<dm] = pts ! k"
    using map_nth[of "pts ! k"] by simp
  then show ?case by simp
next
  case (Suc n)
  define pts' where "pts' = map2 (\<lambda>P1 P2. geodesic P1 P2 t) (butlast pts) (tl pts)"
  have lp: "length pts' = length pts - 1" by (simp add: pts'_def)
  have nth': "pts' ! m = geodesic (pts ! m) (pts ! Suc m) t" if "m < length pts - 1" for m
    using that by (simp add: pts'_def nth_butlast nth_tl)
  have dims: "\<forall>p\<in>set pts'. length p = dm"
  proof
    fix p assume "p \<in> set pts'"
    then obtain m where m: "m < length pts'" "pts' ! m = p" by (auto simp: in_set_conv_nth)
    then have "p = geodesic (pts ! m) (pts ! Suc m) t" using nth' lp by simp
    moreover have "length (pts ! m) = dm" "length (pts ! Suc m) = dm"
      using Suc.prems(1) m(1) lp by simp_all
    ultimately show "length p = dm" by (simp add: length_geodesic)
  qed
  have kn: "k + n < length pts'" using Suc.prems(2) lp by simp
  have coord: "pts' ! (k + i) ! c = (1 - t) * pts ! (k + i) ! c + t * pts ! (k + Suc i) ! c"
    if "i \<le> n" "c < dm" for i c
  proof -
    have m: "k + i < length pts - 1" using that(1) Suc.prems(2) by simp
    have "length (pts ! (k + i)) = dm" "length (pts ! Suc (k + i)) = dm"
      using Suc.prems m by simp_all
    then show ?thesis using nth'[OF m] that(2) by (simp add: nth_geodesic)
  qed
  have "de_casteljau (Suc n) pts t ! k = de_casteljau n pts' t ! k"
    by (simp add: pts'_def)
  also have "\<dots> = map (\<lambda>c. \<Sum>i\<le>n. real (n choose i) * (1 - t) ^ (n - i) * t ^ i * pts' ! (k + i) ! c) [0..<dm]"
    by (rule Suc.IH[OF dims kn])
  also have "\<dots> = map (\<lambda>c. \<Sum>i\<le>Suc n. real (Suc n choose i) * (1 - t) ^ (Suc n - i) * t ^ i * pts ! (k + i) ! c) [0..<dm]"
  proof (rule map_cong[OF refl])
    fix c assume "c \<in> set [0..<dm]"
    then have c: "c < dm" by simp
    have "(\<Sum>i\<le>n. real (n choose i) * (1 - t) ^ (n - i) * t ^ i * pts' ! (k + i) ! c)
        = (\<Sum>i\<le>n. real (n choose i) * (1 - t) ^ (n - i) * t ^ i *
             ((1 - t) * pts ! (k + i) ! c + t * pts ! (k + Suc i) ! c))"
      by (rule sum.cong) (simp_all add: coord c)
    also have "\<dots> = (\<Sum>i\<le>Suc n. real (Suc n choose i) * (1 - t) ^ (Suc n - i) * t ^ i * pts ! (k + i) ! c)"
      by (rule bernstein_step[of n t "\<lambda>i. pts ! (k + i) ! c"])
    finally show "(\<Sum>i\<le>n. real (n choose i) * (1 - t) ^ (n - i) * t ^ i * pts' ! (k + i) ! c)
        = (\<Sum>i\<le>Suc n. real (Suc n choose i) * (1 - t) ^ (Suc n - i) * t ^ i * pts ! (k + i) ! c)" .
  qed
  finally show ?case .
qed

lemma de_casteljau_is_bernstein:
  assumes "cps \<noteq> []" "\<forall>p\<in>set cps. length p = dm"
  shows "hd (de_casteljau (length cps - 1) cps t) = bernstein dm cps t"
proof -
  define n where "n = length cps - 1"
  have l: "length cps = Suc n" using assms(1) by (simp add: n_def)
  have "length (de_casteljau n cps t) = 1" by (simp add: length_de_casteljau l)
  then have "hd (de_casteljau n cps t) = de_casteljau n cps t ! 0"
    by (cases "de_casteljau n cps t") auto
  also have "\<dots> = map (\<lambda>c. \<Sum>i\<le>n. real (n choose i) * (1 - t) ^ (n - i) * t ^ i * cps ! (0 + i) ! c) [0..<dm]"
    using de_casteljau_bernstein[OF assms(2), of 0 n t] l by simp
  also have "\<dots> = bernstein dm cps t"
    unfolding bernstein_def Let_def n_def[symmetric] l
    by (simp add: interv_sum_list_conv_sum_set_nat atLeast0LessThan lessThan_Suc_atMost
        del: upt_Suc sum.lessThan_Suc sum.atMost_Suc)
  finally show ?thesis by (simp add: n_def)
qed

subsection \<open>Evaluation on a valid window\<close>





section \<open>Claims about spline evaluation\<close>

text \<open>
  C1. The Bezier curve of the control points \<open>[[1,1],[0,-1],[-1,1]]\<close> evaluates, at
  every parameter \<open>t\<close> (so at every \<open>t\<close> in \<open>[0,1]\<close>), to a point \<open>(x, y)\<close> with
  \<open>y = x\<^sup>2\<close>, and to \<open>(0, 0)\<close> at \<open>t = 1/2\<close>.
\<close>

theorem Bezier_parabola:
  "\<exists>b. Bezier_init [[1, 1], [0, - 1], [- 1, 1]] = Inr b
      \<and> (\<forall>t. \<exists>x y. Bezier_call b [t] = Inr [[x, y]] \<and> y = x\<^sup>2)
      \<and> Bezier_call b [1 / 2] = Inr [[0, 0]]"
proof -
  obtain b where b: "Bezier_init [[1, 1], [0, - 1], [- 1, 1]] = Inr b"
    using Bezier_init_value[of "[[1, 1], [0, - 1], [- 1, 1]]" 2] by simp
  have v: "Bezier_call b [t] = Inr [[1 - 2 * t, (1 - 2 * t)\<^sup>2]]" for t
    using Bezier_call_value[OF b, of "[t]"]
    by (simp add: numeral_2_eq_2 geodesic_def power2_eq_square algebra_simps)
  have "\<forall>t. \<exists>x y. Bezier_call b [t] = Inr [[x, y]] \<and> y = x\<^sup>2"
    using v by blast
  moreover have "Bezier_call b [1 / 2] = Inr [[0, 0]]"
    using v[of "1 / 2"] by simp
  ultimately show ?thesis using b by blast
qed





text \<open>
  C10. A Bezier object with \<open>n + 1 \<ge> 1\<close> control points has \<open>rknot = n\<close>; its call is
  the BSpline call with the fixed left knot \<open>n - 1\<close>, so \<open>left_knot\<close> is not consulted;
  and for every real parameter, inside \<open>[0,1]\<close> or not, it returns the value of the
  de Casteljau polynomial of the control points (the single control point when \<open>n = 0\<close>),
  which for control points of one dimension is the Bezier polynomial in Bernstein form.
\<close>

theorem Bezier_call_extrapolates:
  assumes "cps \<noteq> []"
  shows "\<exists>b. Bezier_init cps = Inr b \<and> rknot b = int (length cps) - 1
      \<and> Bezier_call b ts = BSpline_call b ts (Some (int (length cps) - 2))
      \<and> Bezier_call b ts =
          (if length cps = 1 then Inr [hd cps]
           else Inr (map (\<lambda>t. hd (de_casteljau (length cps - 1) cps t)) ts))
      \<and> (list_all (\<lambda>p. length p = dm) cps \<longrightarrow>
           (\<forall>t. hd (de_casteljau (length cps - 1) cps t) = bernstein dm cps t))"
proof -
  obtain D where D: "length cps = Suc D" using assms by (cases cps) auto
  let ?b = "\<lparr>knots = replicate D 0 @ replicate D 1,
            length' = int D - 1, control_points = cps, rknot = int D\<rparr>"
  have b: "Bezier_init cps = Inr ?b" by (rule Bezier_init_value[OF D])
  have "rknot ?b = int (length cps) - 1" by (simp add: D)
  moreover have "Bezier_call ?b ts = BSpline_call ?b ts (Some (int (length cps) - 2))"
    by (simp add: Bezier_call_def D)
  moreover note Bezier_call_value[OF b assms, of ts]
  moreover have "list_all (\<lambda>p. length p = dm) cps \<longrightarrow>
           (\<forall>t. hd (de_casteljau (length cps - 1) cps t) = bernstein dm cps t)"
    using de_casteljau_is_bernstein[OF assms, of dm] by (simp add: list_all_iff)
  ultimately show ?thesis using b by blast
qed

theorem Bezier_call_extrapolates_witness:
  "[[1, 1], [0, - 1], [- 1, 1 :: real]] \<noteq> []
   \<and> list_all (\<lambda>p. length p = 2) [[1, 1], [0, - 1], [- 1, 1 :: real]]
   \<and> (\<exists>b. Bezier_init [[1, 1], [0, - 1], [- 1, 1]] = Inr b
        \<and> Bezier_call b [2, - 1] = Inr [[- 3, 9], [3, 9]]
        \<and> Bezier_call b [2, - 1]
            = Inr [bernstein 2 [[1, 1], [0, - 1], [- 1, 1]] 2, bernstein 2 [[1, 1], [0, - 1], [- 1, 1]] (- 1)]
        \<and> left_knot b 2 = Inl (ValueError ''Time too big'')
        \<and> left_knot b (- 1) = Inl (ValueError ''Time too small''))"
proof -
  let ?cps = "[[1, 1], [0, - 1], [- 1, 1 :: real]]"
  have ne: "?cps \<noteq> []" by simp
  have la: "list_all (\<lambda>p. length p = 2) ?cps" by simp
  obtain b where b: "Bezier_init ?cps = Inr b"
     and c: "Bezier_call b [2, - 1] = (if length ?cps = 1 then Inr [hd ?cps]
           else Inr (map (\<lambda>t. hd (de_casteljau (length ?cps - 1) ?cps t)) [2, - 1]))"
     and p: "list_all (\<lambda>p. length p = 2) ?cps \<longrightarrow>
           (\<forall>t. hd (de_casteljau (length ?cps - 1) ?cps t) = bernstein 2 ?cps t)"
    using Bezier_call_extrapolates[OF ne, of "[2, - 1]" 2] by blast
  have q: "\<forall>t. hd (de_casteljau (length ?cps - 1) ?cps t) = bernstein 2 ?cps t"
    using p la by blast
  have w: "Bezier_call b [2, - 1] = Inr [bernstein 2 ?cps 2, bernstein 2 ?cps (- 1)]"
    unfolding c using q by simp
  have v: "Bezier_call b [2, - 1] = Inr [[- 3, 9], [3, 9]]"
    unfolding c by (simp add: numeral_2_eq_2 geodesic_def)
  have "b = \<lparr>knots = [0, 0, 1, 1], length' = 1, control_points = [[1, 1], [0, - 1], [- 1, 1]], rknot = 2\<rparr>"
    using b by (auto simp add: Bezier_init_def BSpline_init_def numeral_2_eq_2)
  then have l: "left_knot b 2 = Inl (ValueError ''Time too big'')"
      "left_knot b (- 1) = Inl (ValueError ''Time too small'')"
    by (simp_all add: left_knot_def py_slice_def slice_bound_def ktol_def)
  from ne la b v w l show ?thesis by blast
qed

section \<open>Properties of the C2 interpolator\<close>

subsection \<open>The relaxation update\<close>

lemma py_slice_inner_all: "py_slice xs 1 (- 1) = butlast (tl xs)"
proof (cases "2 \<le> length xs")
  case True
  then show ?thesis by (rule py_slice_inner)
next
  case False
  then have "xs = [] \<or> (\<exists>x. xs = [x])"
    by (cases xs; cases "tl xs") auto
  then show ?thesis by (auto simp: py_slice_def slice_bound_def)
qed

lemma nth_inner: "j + 2 \<le> length xs \<Longrightarrow> j < length xs - 2 \<Longrightarrow> butlast (tl xs) ! j = xs ! (j + 1)"
  by (simp add: nth_butlast nth_tl)

lemma zip_ranges: "zip [2..<N] [0..<N - 2] = map (\<lambda>j. (j + 2, j)) [0..<N - 2]"
  by (rule nth_equalityI) auto

lemma interior_deformations_value:
  assumes ld: "length d = N" and lp: "length (interpolation_points I) = N" and sz: "size' I = N"
  shows "interior_deformations ex I d =
     Inr (map (\<lambda>j. vscale (1 / 4) (vadd
            (vsub
               (redlog (geometry I) (interpolation_points I ! (j + 1))
                  (action (geometry I) (ex (vneg (d ! (j + 1))))
                     (action (geometry I) (ex (vneg (d ! (j + 2)))) (interpolation_points I ! (j + 2)))))
               (redlog (geometry I) (interpolation_points I ! (j + 1))
                  (action (geometry I) (ex (d ! (j + 1)))
                     (action (geometry I) (ex (d ! j)) (interpolation_points I ! j)))))
            (vscale 2 (d ! (j + 1)))))
          [0..<N - 2])"
proof -
  define g where "g = geometry I"
  define P where "P = interpolation_points I"
  define sr where "sr = (\<lambda>j. redlog g (P ! (j + 1))
                  (action g (ex (vneg (d ! (j + 1)))) (action g (ex (vneg (d ! (j + 2)))) (P ! (j + 2)))))"
  define sl where "sl = (\<lambda>j. redlog g (P ! (j + 1))
                  (action g (ex (d ! (j + 1))) (action g (ex (d ! j)) (P ! j))))"
  define F where "F = (\<lambda>(Q :: 'a, e :: deformation, c :: error + 'a \<times> 'a).
               bind_err c (\<lambda>(left, right).
                 Inr (redlog g Q (action g (ex (vneg e)) left), redlog g Q (action g (ex e) right))))"
  have lP: "length P = N" using lp by (simp add: P_def)
  have cp: "Interpolator_control_points ex I d =
      map (\<lambda>j. Inr (action g (ex (vneg (d ! (j + 2)))) (P ! (j + 2)), action g (ex (d ! j)) (P ! j)))
        [0..<N - 2]"
    unfolding Interpolator_control_points_def Let_def sz zip_ranges g_def[symmetric] P_def[symmetric]
    using ld lP by (auto simp: comp_def)
  have items: "zip (butlast (tl P)) (zip (butlast (tl d)) (Interpolator_control_points ex I d))
      = map (\<lambda>j. (P ! (j + 1), d ! (j + 1),
               Inr (action g (ex (vneg (d ! (j + 2)))) (P ! (j + 2)), action g (ex (d ! j)) (P ! j))))
          [0..<N - 2]"
    unfolding cp using ld lP by (intro nth_equalityI) (auto simp: nth_butlast nth_tl)
  have steps: "map F (zip (butlast (tl P)) (zip (butlast (tl d)) (Interpolator_control_points ex I d)))
      = map (\<lambda>j. Inr (sr j, sl j)) [0..<N - 2]"
    unfolding items by (simp add: F_def sr_def sl_def comp_def)
  have ok: "all_ok (map F (zip (butlast (tl P)) (zip (butlast (tl d)) (Interpolator_control_points ex I d))))
      = Inr (map (\<lambda>j. (sr j, sl j)) [0..<N - 2])"
    unfolding steps using all_ok_map_Inr[of "[0..<N - 2]" "\<lambda>j. Inr (sr j, sl j)" "\<lambda>j. (sr j, sl j)"]
    by simp
  have lz: "length (zeros_like (butlast (tl d))) = N - 2"
    using ld by (simp add: zeros_like_def)
  have res: "arr_scale (1 / 4)
        (arr_add (arr_sub (map sr [0..<N - 2]) (map sl [0..<N - 2])) (arr_scale 2 (butlast (tl d))))
      = map (\<lambda>j. vscale (1 / 4) (vadd (vsub (sr j) (sl j)) (vscale 2 (d ! (j + 1))))) [0..<N - 2]"
    using ld by (intro nth_equalityI) (auto simp: arr_scale_def arr_add_def arr_sub_def nth_butlast nth_tl)
  have "interior_deformations ex I d =
      Inr (arr_scale (1 / 4)
        (arr_add (arr_sub (map sr [0..<N - 2]) (map sl [0..<N - 2])) (arr_scale 2 (butlast (tl d)))))"
    unfolding interior_deformations_def Let_def py_slice_inner_all g_def[symmetric] P_def[symmetric]
      F_def[symmetric] ok bind_err_simps
    using lz by (simp add: comp_def)
  then show ?thesis
    unfolding res by (simp add: sr_def sl_def g_def P_def)
qed

lemma Interpolator_init_fields:
  assumes "Interpolator_init pts bvs g = Inr I"
  shows "interpolation_points I = pts" "geometry I = g" "size' I = length pts"
  using assms by (auto simp: Interpolator_init_def split: if_splits)

subsection \<open>One pass of the loop\<close>

lemma py_set_first: "xs \<noteq> [] \<Longrightarrow> py_set xs 0 v = Inr (xs[0 := v])"
  by (simp add: py_set_def)

lemma py_set_last: "xs \<noteq> [] \<Longrightarrow> py_set xs (- 1) v = Inr (xs[length xs - 1 := v])"
  by (cases xs) (auto simp add: py_set_def Let_def nat_diff_distrib)

lemma py_set_empty: "py_set [] j v = Inl IndexError"
  by (simp add: py_set_def)

lemma drop_to_last: "ys \<noteq> [] \<Longrightarrow> drop (length ys - Suc 0) ys = [last ys]"
proof -
  assume "ys \<noteq> []"
  then have "ys = butlast ys @ [last ys]" by simp
  then have "drop (length (butlast ys)) ys = drop (length (butlast ys)) (butlast ys @ [last ys])"
    by simp
  then show ?thesis by simp
qed

lemma loop_body_result:
  assumes new: "interior_deformations ex I d = Inr new" and ln: "length new = length d - 2"
    and body: "loop_body ex I k d = Inr (i', err, d', c)"
  shows "i' = 1 \<and> err = arr_sub (py_slice d 1 (- 1)) new \<and> py_slice d' 1 (- 1) = new
       \<and> length d' = length d
       \<and> (2 \<le> length d \<longrightarrow> d' ! 0 = boundary_deformations I ! 0
                                \<and> last d' = boundary_deformations I ! 1)
       \<and> (\<exists>m. np_max_abs err = Inr m \<and> c = (m < tolerance))"
proof -
  define D1 where "D1 = (if length d < 2 then d else take 1 d @ new @ drop (length d - 1) d)"
  define b0 where "b0 = boundary_deformations I ! 0"
  define b1 where "b1 = boundary_deformations I ! Suc 0"
  define e where "e = arr_sub (py_slice d 1 (- 1)) new"
  have lD: "length D1 = length d"
    using ln by (auto simp: D1_def)
  have ne: "D1 \<noteq> []"
  proof
    assume "D1 = []"
    then have "py_set D1 0 b0 = Inl IndexError" by (simp add: py_set_empty)
    then have "loop_body ex I k d = Inl IndexError"
      unfolding loop_body_def new bind_err_simps Let_def D1_def[symmetric]
      by (simp add: b0_def[symmetric])
    with body show False by simp
  qed
  have s1: "py_set D1 0 b0 = Inr (D1[0 := b0])"
    using ne by (rule py_set_first)
  have s2: "py_set (D1[0 := b0]) (- 1) b1 = Inr ((D1[0 := b0])[length d - 1 := b1])"
    using py_set_last[of "D1[0 := b0]" b1] ne lD by simp
  have lb2: "loop_body ex I k d =
      bind_err (np_max_abs e) (\<lambda>m. Inr (1, e, (D1[0 := b0])[length d - 1 := b1], m < tolerance))"
    unfolding loop_body_def new bind_err_simps Let_def D1_def[symmetric] e_def[symmetric]
    by (simp add: b0_def[symmetric] b1_def[symmetric] s1 s2)
  from body obtain m where m: "np_max_abs e = Inr m" "c = (m < tolerance)"
      and r: "i' = 1" "err = e" "d' = (D1[0 := b0])[length d - 1 := b1]"
    unfolding lb2 by (auto simp: bind_err_eq_Inr)
  have form: "d' = b0 # new @ [b1]" if two: "2 \<le> length d"
  proof -
    have dne: "d \<noteq> []" using two by auto
    have dl: "drop (length d - Suc 0) d = [last d]"
      using drop_to_last[OF dne] by simp
    have tk: "take (Suc 0) d = [hd d]"
      using dne by (cases d) auto
    have D: "D1 = hd d # new @ [last d]"
      using two by (simp add: D1_def dl tk)
    have ix: "length d - 1 = Suc (length new)"
      using two ln by simp
    show ?thesis
      unfolding r(3) D ix by simp
  qed
  have inner: "py_slice d' 1 (- 1) = new"
  proof (cases "2 \<le> length d")
    case True
    then show ?thesis using form by (simp add: py_slice_inner_all butlast_append)
  next
    case False
    then have "length d = 1" using ne lD by (cases D1) auto
    then have "new = []" "length d' = 1" using ln lD by (auto simp: r(3))
    then show ?thesis by (cases d') (auto simp: py_slice_inner_all)
  qed
  have bd: "d' ! 0 = b0 \<and> last d' = b1" if "2 \<le> length d"
    using form[OF that] by simp
  have ld': "length d' = length d"
    using lD by (simp add: r(3))
  show ?thesis
    using r(1,2) m inner bd ld' by (auto simp: e_def b0_def b1_def)
qed

subsection \<open>The loop\<close>

text \<open>
  With one deformation per interpolation point, the loop returns an array only from a
  pass that ends in \<^verbatim>\<open>break\<close>, and the exception of the exhausted loop always carries
  the index 1.
\<close>

lemma py_set_error: "py_set xs j v = Inl e \<Longrightarrow> e = IndexError"
  by (auto simp: py_set_def Let_def split: if_splits)

lemma np_max_abs_error: "np_max_abs a = Inl e \<Longrightarrow> (\<exists>s. e = ValueError s)"
  by (auto simp: np_max_abs_def split: list.splits)

lemma loop_body_error:
  assumes new: "interior_deformations ex I d = Inr new"
    and err: "loop_body ex I k d = Inl e"
  shows "e = IndexError \<or> (\<exists>s. e = ValueError s)"
  using err py_set_error np_max_abs_error
  unfolding loop_body_def new bind_err_simps Let_def
  by (fastforce simp: bind_err_eq_Inl split: prod.splits)

lemma iterate_no_convergence_index:
  assumes lp: "length (interpolation_points I) = N" and sz: "size' I = N"
    and ld: "length d = N"
    and it: "iterate ex I ks vars d = Inl (NoConvergence i err)"
    and v: "ks \<noteq> [] \<or> (\<exists>e. vars = Some (1, e))"
  shows "i = 1"
  using ld it v
proof (induction ks arbitrary: vars d)
  case Nil
  then show ?case by auto
next
  case (Cons k ks)
  obtain new where new: "interior_deformations ex I d = Inr new" "length new = length d - 2"
    using interior_deformations_value[OF Cons.prems(1) lp sz, of ex] Cons.prems(1) by simp
  show ?case
  proof (cases "loop_body ex I k d")
    case (Inl e)
    then have "iterate ex I (k # ks) vars d = Inl e" by simp
    moreover have "e = IndexError \<or> (\<exists>s. e = ValueError s)"
      using loop_body_error[OF new(1) Inl] .
    ultimately show ?thesis using Cons.prems(2) by auto
  next
    case (Inr r)
    obtain i' err' d' c where r: "r = (i', err', d', c)" by (cases r) auto
    note res = loop_body_result[OF new Inr[unfolded r]]
    have nc: "\<not> c" using Cons.prems(2) Inr r by auto
    then have "iterate ex I ks (Some (1, err')) d' = Inl (NoConvergence i err)"
      using Cons.prems(2) Inr r res by simp
    moreover have "length d' = N" using res Cons.prems(1) by simp
    ultimately show ?thesis using Cons.IH[of d' "Some (1, err')"] by blast
  qed
qed

lemma iterate_returns_converged:
  assumes lp: "length (interpolation_points I) = N" and sz: "size' I = N"
    and ld: "length d = N"
    and it: "iterate ex I ks vars d = Inr r"
  shows "\<exists>k prev err m. k \<in> set ks \<and> length prev = N
      \<and> loop_body ex I k prev = Inr (1, err, r, True)
      \<and> np_max_abs err = Inr m \<and> m < tolerance"
  using ld it
proof (induction ks arbitrary: vars d)
  case Nil
  then show ?case by (auto split: option.splits)
next
  case (Cons k ks)
  obtain new where new: "interior_deformations ex I d = Inr new" "length new = length d - 2"
    using interior_deformations_value[OF Cons.prems(1) lp sz, of ex] Cons.prems(1) by simp
  show ?case
  proof (cases "loop_body ex I k d")
    case (Inl e)
    then show ?thesis using Cons.prems(2) by simp
  next
    case (Inr q)
    obtain i' err' d' c where q: "q = (i', err', d', c)" by (cases q) auto
    note res = loop_body_result[OF new Inr[unfolded q]]
    show ?thesis
    proof (cases c)
      case True
      then have "r = d'" using Cons.prems(2) Inr q by simp
      then have "loop_body ex I k d = Inr (1, err', r, True)"
        using Inr q res True by simp
      moreover obtain m where "np_max_abs err' = Inr m" "m < tolerance"
        using res True by auto
      ultimately show ?thesis using Cons.prems(1) by (metis list.set_intros(1))
    next
      case False
      then have "iterate ex I ks (Some (i', err')) d' = Inr r"
        using Cons.prems(2) Inr q by simp
      moreover have "length d' = N" using res Cons.prems(1) by simp
      ultimately obtain k' prev err m where "k' \<in> set ks" "length prev = N"
        "loop_body ex I k' prev = Inr (1, err, r, True)" "np_max_abs err = Inr m" "m < tolerance"
        using Cons.IH by blast
      then show ?thesis by (metis list.set_intros(2))
    qed
  qed
qed

lemma compute_deformations_outcome:
  assumes init: "Interpolator_init pts bvs g = Inr I"
    and lz: "length (zero_deformations g pts) = length pts"
  shows "(compute_deformations ex I = Inr r \<longrightarrow>
           (\<exists>k prev err m. k < max_iter \<and> loop_body ex I k prev = Inr (1, err, r, True)
              \<and> np_max_abs err = Inr m \<and> m < tolerance))
       \<and> (compute_deformations ex I = Inl (NoConvergence i err) \<longrightarrow> i = 1)"
proof -
  note f = Interpolator_init_fields[OF init]
  have l: "length (zero_deformations (geometry I) (interpolation_points I)) = length pts"
    using lz f by simp
  have a: "compute_deformations ex I = Inr r \<longrightarrow>
           (\<exists>k prev err m. k < max_iter \<and> loop_body ex I k prev = Inr (1, err, r, True)
              \<and> np_max_abs err = Inr m \<and> m < tolerance)"
    unfolding compute_deformations_def
    using iterate_returns_converged[OF f(1)[THEN arg_cong[where f = length]] f(3) l, of ex "[0..<max_iter]" None r]
    by auto
  have ne: "[0..<max_iter] \<noteq> []" by (simp add: max_iter_def)
  have b: "compute_deformations ex I = Inl (NoConvergence i err) \<longrightarrow> i = 1"
    unfolding compute_deformations_def
    using iterate_no_convergence_index[OF f(1)[THEN arg_cong[where f = length]] f(3) l, of ex "[0..<max_iter]" None i err] ne
    by blast
  from a b show ?thesis by blast
qed

subsection \<open>The flat geometry on four collinear points\<close>

text \<open>
  For the points \<open>0, 0, X, X\<close> on the line with boundary velocities 0, the array stays
  of the form \<open>[0, a, a, 0]\<close>, one pass maps \<open>a\<close> to \<open>(X - a) / 4\<close>, and the change
  of a pass is \<open>(5 a - X) / 4\<close>: a quarter of the change of the pass before.
\<close>

lemmas model_defs = interior_deformations_def Interpolator_control_points_def loop_body_def
  py_slice_def slice_bound_def zeros_like_def arr_scale_def arr_add_def arr_sub_def
  vscale_def vadd_def vsub_def vneg_def np_max_abs_def py_set_def Euclidean_def translation_def
  tolerance_def

lemma loop_body_flat4:
  "loop_body translation
     \<lparr>interpolation_points = [[0], [0], [X], [X]], boundary_deformations = [[0], [0]],
        geometry = Euclidean, size' = 4\<rparr> k [[0], [a], [a], [0]]
   = Inr (1, [[(5 * a - X) / 4], [(5 * a - X) / 4]], [[0], [(X - a) / 4], [(X - a) / 4], [0]],
          \<bar>5 * a - X\<bar> / 4 < 1 / 10 ^ 12)"
  apply (simp add: model_defs upt_conv_Cons Let_def)
  apply (simp add: field_simps abs_if max_def)
  apply linarith
  done

lemma iterate_flat4:
  assumes "ks \<noteq> []" "5 * a - X = - (3 * (- 4) ^ length ks)"
  shows "iterate translation
     \<lparr>interpolation_points = [[0], [0], [X], [X]], boundary_deformations = [[0], [0]],
        geometry = Euclidean, size' = 4\<rparr> ks vars [[0], [a], [a], [0]]
    = Inl (NoConvergence 1 [[3], [3]])"
  using assms
proof (induction ks arbitrary: a vars)
  case Nil
  then show ?case by simp
next
  case (Cons k ks)
  let ?I = "\<lparr>interpolation_points = [[0], [0], [X], [X]], boundary_deformations = [[0], [0]],
        geometry = Euclidean, size' = 4\<rparr>"
  have e: "(5 * a - X) / 4 = 3 * (- 4) ^ length ks"
    using Cons.prems(2) by simp
  have big: "\<not> \<bar>5 * a - X\<bar> / 4 < 1 / 10 ^ 12"
  proof -
    have "\<bar>5 * a - X\<bar> / 4 = 3 * 4 ^ length ks"
      using e by (simp add: abs_mult power_abs)
    moreover have "(1::real) \<le> 4 ^ length ks" by simp
    moreover have "(1::real) / 10 ^ 12 < 1" by simp
    ultimately show ?thesis by linarith
  qed
  have step: "iterate translation ?I (k # ks) vars [[0], [a], [a], [0]] =
      iterate translation ?I ks (Some (1, [[(5 * a - X) / 4], [(5 * a - X) / 4]]))
         [[0], [(X - a) / 4], [(X - a) / 4], [0]]"
    using big by (simp only: iterate.simps loop_body_flat4 bind_err_def sum.case prod.case if_False)
  show ?case
  proof (cases "ks = []")
    case True
    then show ?thesis using e unfolding step by simp
  next
    case False
    have "5 * ((X - a) / 4) - X = - (3 * (- 4) ^ length ks)"
      using e by (simp add: field_simps)
    from Cons.IH[OF False this] show ?thesis unfolding step .
  qed
qed

lemma range_first: "[0..<max_iter] = 0 # [1..<max_iter]"
  by (simp add: max_iter_def upt_conv_Cons[of 0])

text \<open>
  Whatever the geometry, the first pass runs on the array of \<open>zero_deformations\<close>, which
  is computed from the interpolation points alone.
\<close>

lemma first_pass_input:
  "compute_deformations ex I =
     bind_err (loop_body ex I 0 (zero_deformations (geometry I) (interpolation_points I)))
       (\<lambda>(i, error, deformations, converged).
          if converged then Inr deformations
          else iterate ex I [1..<max_iter] (Some (i, error)) deformations)"
  by (simp only: compute_deformations_def range_first iterate.simps)

section \<open>Claims about the C2 interpolator\<close>

text \<open>
  C6. For an interpolator built by the constructor and a deformation array \<open>d\<close> with one
  entry per interpolation point, \<open>interior_deformations\<close> returns, for every interior
  point \<open>j + 1\<close>, the value \<open>(sig_right - sig_left + 2 d[j+1]) / 4\<close>, where \<open>sig_right\<close> is
  the \<open>redlog\<close> at \<open>P[j+1]\<close> of the left control point of \<open>P[j+2]\<close> moved by the action of
  \<open>-d[j+1]\<close>, and \<open>sig_left\<close> that of the right control point of \<open>P[j]\<close> moved by the
  action of \<open>d[j+1]\<close>; all of it is read from \<open>d\<close>, the array of the pass before, and a
  pass of the loop stores exactly these values in the interior of the array.
\<close>

theorem relaxation_update:
  assumes init: "Interpolator_init pts bvs g = Inr I" and ld: "length d = length pts"
  shows "\<exists>new. interior_deformations ex I d = Inr new \<and> length new = length pts - 2
     \<and> (\<forall>j. j + 2 < length pts \<longrightarrow>
          new ! j = vscale (1 / 4) (vadd
            (vsub
               (redlog g (pts ! (j + 1))
                  (action g (ex (vneg (d ! (j + 1))))
                     (action g (ex (vneg (d ! (j + 2)))) (pts ! (j + 2)))))
               (redlog g (pts ! (j + 1))
                  (action g (ex (d ! (j + 1)))
                     (action g (ex (d ! j)) (pts ! j)))))
            (vscale 2 (d ! (j + 1)))))
     \<and> (\<forall>k i' err d' c. loop_body ex I k d = Inr (i', err, d', c) \<longrightarrow>
          py_slice d' 1 (- 1) = new \<and> err = arr_sub (py_slice d 1 (- 1)) new)"
proof -
  note f = Interpolator_init_fields[OF init]
  define new where "new = map (\<lambda>j. vscale (1 / 4) (vadd
            (vsub
               (redlog g (pts ! (j + 1))
                  (action g (ex (vneg (d ! (j + 1))))
                     (action g (ex (vneg (d ! (j + 2)))) (pts ! (j + 2)))))
               (redlog g (pts ! (j + 1))
                  (action g (ex (d ! (j + 1)))
                     (action g (ex (d ! j)) (pts ! j)))))
            (vscale 2 (d ! (j + 1))))) [0..<length pts - 2]"
  have v: "interior_deformations ex I d = Inr new"
    using interior_deformations_value[of d "length pts" I ex] ld f by (simp add: new_def)
  have l: "length new = length pts - 2" by (simp add: new_def)
  have n: "\<forall>j. j + 2 < length pts \<longrightarrow>
          new ! j = vscale (1 / 4) (vadd
            (vsub
               (redlog g (pts ! (j + 1))
                  (action g (ex (vneg (d ! (j + 1))))
                     (action g (ex (vneg (d ! (j + 2)))) (pts ! (j + 2)))))
               (redlog g (pts ! (j + 1))
                  (action g (ex (d ! (j + 1)))
                     (action g (ex (d ! j)) (pts ! j)))))
            (vscale 2 (d ! (j + 1))))"
  proof (intro allI impI)
    fix j assume "j + 2 < length pts"
    then have "j < length pts - 2" by arith
    then show "new ! j = vscale (1 / 4) (vadd
            (vsub
               (redlog g (pts ! (j + 1))
                  (action g (ex (vneg (d ! (j + 1))))
                     (action g (ex (vneg (d ! (j + 2)))) (pts ! (j + 2)))))
               (redlog g (pts ! (j + 1))
                  (action g (ex (d ! (j + 1)))
                     (action g (ex (d ! j)) (pts ! j)))))
            (vscale 2 (d ! (j + 1))))"
      by (simp add: new_def)
  qed
  have b: "\<forall>k i' err d' c. loop_body ex I k d = Inr (i', err, d', c) \<longrightarrow>
          py_slice d' 1 (- 1) = new \<and> err = arr_sub (py_slice d 1 (- 1)) new"
  proof (intro allI impI)
    fix k i' err d' c
    assume a: "loop_body ex I k d = Inr (i', err, d', c)"
    have "length new = length d - 2" using l ld by simp
    from loop_body_result[OF v this a]
    show "py_slice d' 1 (- 1) = new \<and> err = arr_sub (py_slice d 1 (- 1)) new" by simp
  qed
  from v l n b show ?thesis by blast
qed

theorem relaxation_update_witness:
  "Interpolator_init [[0, 0], [1, 1], [2, 2]] [[3, 3], [3, 3]] Euclidean
     = Inr \<lparr>interpolation_points = [[0, 0], [1, 1], [2, 2]],
            boundary_deformations = [[1, 1], [1, 1]], geometry = Euclidean, size' = 3\<rparr>
   \<and> length [[1, 1], [1 / 2, 1 / 2], [1, 1 :: real]] = length [[0, 0], [1, 1], [2, 2 :: real]]
   \<and> interior_deformations translation
        \<lparr>interpolation_points = [[0, 0], [1, 1], [2, 2]],
           boundary_deformations = [[1, 1], [1, 1]], geometry = Euclidean, size' = 3\<rparr>
        [[1, 1], [1 / 2, 1 / 2], [1, 1]] = Inr [[0, 0]]
   \<and> loop_body translation
        \<lparr>interpolation_points = [[0, 0], [1, 1], [2, 2]],
           boundary_deformations = [[1, 1], [1, 1]], geometry = Euclidean, size' = 3\<rparr>
        1 [[1, 1], [1 / 2, 1 / 2], [1, 1]]
       = Inr (1, [[1 / 2, 1 / 2]], [[1, 1], [0, 0], [1, 1]], False)"
proof -
  let ?I = "\<lparr>interpolation_points = [[0, 0], [1, 1], [2, 2 :: real]],
           boundary_deformations = [[1, 1], [1, 1]], geometry = Euclidean, size' = 3\<rparr>"
  let ?d = "[[1, 1], [1 / 2, 1 / 2], [1, 1 :: real]]"
  have i: "Interpolator_init [[0, 0], [1, 1], [2, 2]] [[3, 3], [3, 3]] Euclidean = Inr ?I"
    by (simp add: Interpolator_init_def vscale_def Euclidean_def)
  have l: "length ?d = length [[0, 0], [1, 1], [2, 2 :: real]]" by simp
  from relaxation_update[OF i l, of translation]
  obtain new where new: "interior_deformations translation ?I ?d = Inr new"
      "length new = length [[0, 0], [1, 1], [2, 2 :: real]] - 2"
      "\<forall>j. j + 2 < length [[0, 0], [1, 1], [2, 2 :: real]] \<longrightarrow>
          new ! j = vscale (1 / 4) (vadd
            (vsub
               (redlog Euclidean ([[0, 0], [1, 1], [2, 2]] ! (j + 1))
                  (action Euclidean (translation (vneg (?d ! (j + 1))))
                     (action Euclidean (translation (vneg (?d ! (j + 2)))) ([[0, 0], [1, 1], [2, 2]] ! (j + 2)))))
               (redlog Euclidean ([[0, 0], [1, 1], [2, 2]] ! (j + 1))
                  (action Euclidean (translation (?d ! (j + 1)))
                     (action Euclidean (translation (?d ! j)) ([[0, 0], [1, 1], [2, 2]] ! j)))))
            (vscale 2 (?d ! (j + 1))))"
      and lb: "\<forall>k i' err d' c. loop_body translation ?I k ?d = Inr (i', err, d', c) \<longrightarrow>
          py_slice d' 1 (- 1) = new \<and> err = arr_sub (py_slice ?d 1 (- 1)) new"
    by blast
  have "new ! 0 = [0, 0]"
    using new(3)[rule_format, of 0]
    by (simp add: Euclidean_def translation_def vscale_def vadd_def vsub_def vneg_def)
  moreover have "length new = 1" using new(2) by simp
  ultimately have n: "new = [[0, 0]]"
    by (cases new) auto
  have b: "loop_body translation ?I 1 ?d = Inr (1, [[1 / 2, 1 / 2]], [[1, 1], [0, 0], [1, 1]], False)"
    unfolding loop_body_def new(1) n
    by (simp add: py_slice_def slice_bound_def arr_sub_def vsub_def py_set_def np_max_abs_def
        tolerance_def)
  from i l new(1) n b show ?thesis by simp
qed

text \<open>
  C4: the code misses the first pass. The loop writes the boundary deformations into
  the array at the end of every pass, so every later pass reads them; the first pass
  reads the array of \<open>zero_deformations\<close>, whose boundary entries are zero. For three
  equal points \<open>[1,0]\<close> with boundary velocities \<open>[3,3]\<close> in the flat geometry the first
  pass therefore sees no change and breaks: the solver returns the interior
  deformation \<open>[0,0]\<close> between the boundary deformations \<open>[1,1]\<close>, and one more update
  of that array gives \<open>[-1/2,-1/2]\<close>, so the result is not the fixed point.
\<close>

theorem first_pass_reads_zero_boundary:
  "Interpolator_init [[1, 0], [1, 0], [1, 0]] [[3, 3], [3, 3]] Euclidean
     = Inr \<lparr>interpolation_points = [[1, 0], [1, 0], [1, 0]],
            boundary_deformations = [[1, 1], [1, 1]], geometry = Euclidean, size' = 3\<rparr>
   \<and> compute_deformations translation
        \<lparr>interpolation_points = [[1, 0], [1, 0], [1, 0]],
           boundary_deformations = [[1, 1], [1, 1]], geometry = Euclidean, size' = 3\<rparr>
       = iterate translation
           \<lparr>interpolation_points = [[1, 0], [1, 0], [1, 0]],
              boundary_deformations = [[1, 1], [1, 1]], geometry = Euclidean, size' = 3\<rparr>
           (0 # [1..<max_iter]) None [[0, 0], [0, 0], [0, 0]]
   \<and> loop_body translation
        \<lparr>interpolation_points = [[1, 0], [1, 0], [1, 0]],
           boundary_deformations = [[1, 1], [1, 1]], geometry = Euclidean, size' = 3\<rparr>
        0 [[0, 0], [0, 0], [0, 0]]
       = Inr (1, [[0, 0]], [[1, 1], [0, 0], [1, 1]], True)
   \<and> compute_deformations translation
        \<lparr>interpolation_points = [[1, 0], [1, 0], [1, 0]],
           boundary_deformations = [[1, 1], [1, 1]], geometry = Euclidean, size' = 3\<rparr>
       = Inr [[1, 1], [0, 0], [1, 1]]
   \<and> interior_deformations translation
        \<lparr>interpolation_points = [[1, 0], [1, 0], [1, 0]],
           boundary_deformations = [[1, 1], [1, 1]], geometry = Euclidean, size' = 3\<rparr>
        [[1, 1], [0, 0], [1, 1]]
       = Inr [[- 1 / 2, - 1 / 2]]"
proof -
  let ?I = "\<lparr>interpolation_points = [[1, 0], [1, 0], [1, 0 :: real]],
           boundary_deformations = [[1, 1], [1, 1]], geometry = Euclidean, size' = 3\<rparr>"
  have i: "Interpolator_init [[1, 0], [1, 0], [1, 0]] [[3, 3], [3, 3]] Euclidean = Inr ?I"
    by (simp add: Interpolator_init_def vscale_def Euclidean_def)
  have z: "zero_deformations (geometry ?I) (interpolation_points ?I) = [[0, 0], [0, 0], [0, 0]]"
    by (simp add: Euclidean_def zeros_like_def)
  have c: "compute_deformations translation ?I
      = iterate translation ?I (0 # [1..<max_iter]) None [[0, 0], [0, 0], [0, 0]]"
    by (simp only: compute_deformations_def z range_first)
  have b: "loop_body translation ?I 0 [[0, 0], [0, 0], [0, 0]]
      = Inr (1, [[0, 0]], [[1, 1], [0, 0], [1, 1]], True)"
    by (simp add: model_defs upt_conv_Cons Let_def)
  have r: "compute_deformations translation ?I = Inr [[1, 1], [0, 0], [1, 1]]"
    unfolding c by (simp only: iterate.simps b bind_err_def sum.case prod.case if_True)
  have f: "interior_deformations translation ?I [[1, 1], [0, 0], [1, 1]] = Inr [[- 1 / 2, - 1 / 2]]"
    by (simp add: model_defs upt_conv_Cons Let_def)
  from i c b r f show ?thesis by (simp only: simp_thms)
qed

text \<open>
  C7: the error reports the index of the inner loop. For the points
  \<open>0, 0, 3 * 4^500, 3 * 4^500\<close> with boundary velocities 0 in the flat geometry the
  change of the 500th pass is still 3, the loop is exhausted, and the exception
  reports \<open>i = 1\<close>, the last value of the inner \<^verbatim>\<open>for i,j in ((0,0), (1,-1))\<close>, not
  the iteration index 499.
\<close>

theorem no_convergence_reports_inner_index:
  "Interpolator_init [[0], [0], [3 * 4 ^ 500], [3 * 4 ^ 500]] [[0], [0]] Euclidean
     = Inr \<lparr>interpolation_points = [[0], [0], [3 * 4 ^ 500], [3 * 4 ^ 500]],
            boundary_deformations = [[0], [0]], geometry = Euclidean, size' = 4\<rparr>
   \<and> compute_deformations translation
        \<lparr>interpolation_points = [[0], [0], [3 * 4 ^ 500], [3 * 4 ^ 500]],
           boundary_deformations = [[0], [0]], geometry = Euclidean, size' = 4\<rparr>
     = Inl (NoConvergence 1 [[3], [3]])"
proof -
  have i: "Interpolator_init [[0], [0], [3 * 4 ^ 500], [3 * 4 ^ 500]] [[0], [0]] Euclidean
     = Inr \<lparr>interpolation_points = [[0], [0], [3 * 4 ^ 500], [3 * 4 ^ 500]],
            boundary_deformations = [[0], [0]], geometry = Euclidean, size' = 4\<rparr>"
    by (simp add: Interpolator_init_def vscale_def Euclidean_def)
  have z: "zero_deformations Euclidean [[0], [0], [3 * 4 ^ 500], [3 * 4 ^ 500 :: real]] = [[0], [0], [0], [0]]"
    by (simp add: Euclidean_def zeros_like_def)
  have l: "length [0..<max_iter] = 500" "[0..<max_iter] \<noteq> []"
    by (simp_all add: max_iter_def)
  have p: "5 * 0 - 3 * 4 ^ 500 = - (3 * (- 4) ^ length [0..<max_iter] :: real)"
    unfolding l by simp
  show ?thesis
    unfolding compute_deformations_def
    using i iterate_flat4[OF l(2) p, of None] z by simp
qed

end
